theory Spec2Isabelle
  imports Main
begin

section \<open>The environment of the toolkit\<close>

text \<open>
  The three modules (\<^verbatim>\<open>download_goes.py\<close>, \<^verbatim>\<open>preprocess_goes.py\<close>,
  \<^verbatim>\<open>plot_goes.py\<close>) act on a filesystem, an HTTP server, a logger, the standard
  output and the figure registry of the plotting library. All of them are fields of one
  explicit state, \<open>world\<close>, that every operation takes and returns. A Python exception is
  a value of type \<open>error\<close>; an operation returns \<open>(Inl exc, w)\<close> when it raises and
  \<open>(Inr v, w)\<close> when it returns \<open>v\<close>, in both cases with the state it leaves behind.
\<close>

subsection \<open>Exceptions\<close>

text \<open>
  Every constructor stands for a class derived from Python's \<^verbatim>\<open>Exception\<close>, so a
  handler \<^verbatim>\<open>except Exception\<close> catches each of them.
\<close>

datatype error =
    FileNotFoundError
  | FileExistsError
  | NotADirectoryError
  | IsADirectoryError
  | PermissionError
  | RequestException
  | HTTPError nat
  | KeyError string
  | OpenError string
  | RenderError string

text \<open>Two steps in sequence: the second is skipped when the first raises.\<close>

definition and_then :: "error + 'x \<Rightarrow> ('x \<Rightarrow> error + 'y) \<Rightarrow> error + 'y" where
  "and_then r f = (case r of Inl e \<Rightarrow> Inl e | Inr x \<Rightarrow> f x)"

subsection \<open>Paths and the filesystem\<close>

text \<open>
  A \<^verbatim>\<open>pathlib.Path\<close> is the list of its components below its anchor. Components are
  names or \<^verbatim>\<open>..\<close>; \<^verbatim>\<open>pathlib\<close> drops empty components and \<^verbatim>\<open>.\<close> when it builds
  a path. The filesystem maps resolved paths (lists of names) to nodes; the anchor \<open>[]\<close> is
  always a directory. Symbolic links are not modelled. \<open>readonly\<close> marks the directories
  in which the process may not create entries.
\<close>

type_synonym path = "string list"

datatype node = Dir | File string

type_synonym filesystem = "path \<rightharpoonup> node"

text \<open>
  One reply of the HTTP server to \<^verbatim>\<open>requests.get(url, stream=True, timeout=60)\<close>:
  either the transport fails (connection error, timeout, malformed URL), or a response
  arrives with a status code and a body delivered in chunks; \<open>Reply st cs broken\<close> with
  \<open>broken\<close> set loses the connection after the chunks \<open>cs\<close>.
\<close>

datatype reply = Transport_error | Reply nat "string list" bool

text \<open>One constructor for each logging call of \<^verbatim>\<open>download_goes.py\<close>, with the values
  its message interpolates.\<close>

datatype log_record =
    Info_exists path
  | Info_downloading string path
  | Info_complete path
  | Error_downloading string error

record world =
  fs :: filesystem
  readonly :: "path \<Rightarrow> bool"
  server :: "string list \<Rightarrow> string \<Rightarrow> reply"
  requests :: "string list"
  log :: "log_record list"
  stdout :: "string list"
  figures :: "nat list"

definition node_at :: "filesystem \<Rightarrow> path \<Rightarrow> node option" where
  "node_at f q = (if q = [] then Some Dir else f q)"

text \<open>Path resolution as the operating system does it: every component is looked up in a
  directory, and \<^verbatim>\<open>..\<close> goes to the parent (the anchor is its own parent).\<close>

fun walk :: "filesystem \<Rightarrow> path \<Rightarrow> path \<Rightarrow> error + path" where
  "walk f cur [] = Inr cur"
| "walk f cur (c # cs) =
     (case node_at f cur of
        None \<Rightarrow> Inl FileNotFoundError
      | Some (File _) \<Rightarrow> Inl NotADirectoryError
      | Some Dir \<Rightarrow> walk f (if c = ''..'' then butlast cur else cur @ [c]) cs)"

definition stat :: "filesystem \<Rightarrow> path \<Rightarrow> error + node" where
  "stat f p =
     (case walk f [] p of
        Inl e \<Rightarrow> Inl e
      | Inr q \<Rightarrow> (case node_at f q of None \<Rightarrow> Inl FileNotFoundError | Some n \<Rightarrow> Inr n))"

text \<open>\<^verbatim>\<open>Path.exists()\<close> and \<^verbatim>\<open>Path.is_dir()\<close>: a failed lookup is \<^verbatim>\<open>False\<close>.\<close>

definition path_exists :: "filesystem \<Rightarrow> path \<Rightarrow> bool" where
  "path_exists f p = (case stat f p of Inl _ \<Rightarrow> False | Inr _ \<Rightarrow> True)"

definition is_dir :: "filesystem \<Rightarrow> path \<Rightarrow> bool" where
  "is_dir f p = (stat f p = Inr Dir)"

text \<open>\<^verbatim>\<open>os.mkdir(p)\<close>: creates one directory, in an existing parent.\<close>

definition os_mkdir :: "path \<Rightarrow> world \<Rightarrow> error + world" where
  "os_mkdir p w =
     (case walk (fs w) [] p of
        Inl e \<Rightarrow> Inl e
      | Inr q \<Rightarrow>
          if p = [] \<or> last p = ''..'' \<or> node_at (fs w) q \<noteq> None then Inl FileExistsError
          else if readonly w (butlast q) then Inl PermissionError
          else Inr (w\<lparr>fs := (fs w)(q \<mapsto> Dir)\<rparr>))"

text \<open>
  \<^verbatim>\<open>Path.mkdir(parents=False, exist_ok=True)\<close>: an error of \<^verbatim>\<open>os.mkdir\<close> other than
  a missing parent is ignored when the path is a directory already.
\<close>

definition mkdir_exist_ok :: "path \<Rightarrow> world \<Rightarrow> (error + unit) \<times> world" where
  "mkdir_exist_ok p w =
     (case os_mkdir p w of
        Inr w' \<Rightarrow> (Inr (), w')
      | Inl FileNotFoundError \<Rightarrow> (Inl FileNotFoundError, w)
      | Inl e \<Rightarrow> if is_dir (fs w) p then (Inr (), w) else (Inl e, w))"

text \<open>
  \<^verbatim>\<open>Path.mkdir(parents=True, exist_ok=True)\<close>: when the parent is missing, the parent
  is made first (recursively), then the directory itself.
\<close>

function mkdir_parents :: "path \<Rightarrow> world \<Rightarrow> (error + unit) \<times> world" where
  "mkdir_parents p w =
     (case os_mkdir p w of
        Inr w' \<Rightarrow> (Inr (), w')
      | Inl FileNotFoundError \<Rightarrow>
          if p = [] then (Inl FileNotFoundError, w)
          else (case mkdir_parents (butlast p) w of
                  (Inl e, w1) \<Rightarrow> (Inl e, w1)
                | (Inr _, w1) \<Rightarrow> mkdir_exist_ok p w1)
      | Inl e \<Rightarrow> if is_dir (fs w) p then (Inr (), w) else (Inl e, w))"
  by pat_completeness auto
termination
  by (relation "measure (\<lambda>(p, w). length p)") auto

declare mkdir_parents.simps [simp del]

text \<open>
  \<^verbatim>\<open>open(p, "wb")\<close> followed by the writes and the close: the file is created or
  truncated, then holds the bytes written.
\<close>

definition open_wb :: "path \<Rightarrow> world \<Rightarrow> error + (path \<times> world)" where
  "open_wb p w =
     (case walk (fs w) [] p of
        Inl e \<Rightarrow> Inl e
      | Inr q \<Rightarrow>
          (case node_at (fs w) q of
             Some Dir \<Rightarrow> Inl IsADirectoryError
           | Some (File _) \<Rightarrow> Inr (q, w\<lparr>fs := (fs w)(q \<mapsto> File [])\<rparr>)
           | None \<Rightarrow>
               if readonly w (butlast q) then Inl PermissionError
               else Inr (q, w\<lparr>fs := (fs w)(q \<mapsto> File [])\<rparr>)))"

definition write_bytes :: "path \<Rightarrow> string \<Rightarrow> world \<Rightarrow> world" where
  "write_bytes q bs w =
     w\<lparr>fs := (fs w)(q \<mapsto> File ((case fs w q of Some (File old) \<Rightarrow> old | _ \<Rightarrow> []) @ bs))\<rparr>"

section \<open>\<^verbatim>\<open>download_goes.py\<close>\<close>

subsection \<open>Strings\<close>

text \<open>\<^verbatim>\<open>s.split(sep)\<close> for a one-character separator: never the empty list.\<close>

fun split_sep :: "char \<Rightarrow> string \<Rightarrow> string list" where
  "split_sep sep [] = [[]]"
| "split_sep sep (c # cs) =
     (if c = sep then [] # split_sep sep cs
      else (case split_sep sep cs of [] \<Rightarrow> [[c]] | s # ss \<Rightarrow> (c # s) # ss))"

text \<open>\<^verbatim>\<open>s.rstrip('/')\<close>: every trailing slash is removed.\<close>

definition rstrip_slash :: "string \<Rightarrow> string" where
  "rstrip_slash s = rev (dropWhile (\<lambda>c. c = CHR ''/'') (rev s))"

text \<open>\<^verbatim>\<open>out_dir / filename\<close> for a \<open>filename\<close> without a slash: an empty name and
  \<^verbatim>\<open>.\<close> leave the path as it is.\<close>

definition path_join :: "path \<Rightarrow> string \<Rightarrow> path" where
  "path_join p name = (if name = [] \<or> name = ''.'' then p else p @ [name])"

subsection \<open>The functions of the module\<close>

definition logger :: "log_record \<Rightarrow> world \<Rightarrow> world" where
  "logger r w = w\<lparr>log := log w @ [r]\<rparr>"

definition ensure_dir :: "path \<Rightarrow> world \<Rightarrow> (error + path) \<times> world" where
  "ensure_dir p w =
     (case mkdir_parents p w of
        (Inl e, w') \<Rightarrow> (Inl e, w')
      | (Inr _, w') \<Rightarrow> (Inr p, w'))"

text \<open>\<^verbatim>\<open>requests.get\<close>: the request is recorded, the server answers from the history
  of requests and the URL.\<close>

definition requests_get :: "string \<Rightarrow> world \<Rightarrow> reply \<times> world" where
  "requests_get url w = (server w (requests w) url, w\<lparr>requests := requests w @ [url]\<rparr>)"

text \<open>The loop over \<^verbatim>\<open>resp.iter_content(chunk_size=8192)\<close>: non-empty chunks are
  appended to the open file.\<close>

fun write_chunks :: "path \<Rightarrow> string list \<Rightarrow> world \<Rightarrow> world" where
  "write_chunks q [] w = w"
| "write_chunks q (chunk # rest) w =
     write_chunks q rest (if chunk \<noteq> [] then write_bytes q chunk w else w)"

definition download_file :: "string \<Rightarrow> path \<Rightarrow> world \<Rightarrow> (error + path) \<times> world" where
  "download_file url out_dir w =
     (case ensure_dir out_dir w of
        (Inl e, w1) \<Rightarrow> (Inl e, w1)
      | (Inr out_dir', w1) \<Rightarrow>
          let filename = last (split_sep CHR ''/'' url);
              out_path = path_join out_dir' filename
          in if path_exists (fs w1) out_path
             then (Inr out_path, logger (Info_exists out_path) w1)
             else
               let w2 = logger (Info_downloading url out_path) w1 in
               (case requests_get url w2 of
                  (Transport_error, w3) \<Rightarrow> (Inl RequestException, w3)
                | (Reply status chunks broken, w3) \<Rightarrow>
                    if 400 \<le> status \<and> status < 600 then (Inl (HTTPError status), w3)
                    else
                      (case open_wb out_path w3 of
                         Inl e \<Rightarrow> (Inl e, w3)
                       | Inr (q, w4) \<Rightarrow>
                           let w5 = write_chunks q chunks w4 in
                           if broken then (Inl RequestException, w5)
                           else (Inr out_path, logger (Info_complete out_path) w5))))"

text \<open>The loop of \<^verbatim>\<open>download_many\<close>, with its list \<^verbatim>\<open>results\<close>.\<close>

fun download_loop :: "string list \<Rightarrow> path \<Rightarrow> path list \<Rightarrow> world \<Rightarrow> path list \<times> world" where
  "download_loop [] out_dir results w = (results, w)"
| "download_loop (url # urls) out_dir results w =
     (case download_file url out_dir w of
        (Inr p, w') \<Rightarrow> download_loop urls out_dir (results @ [p]) w'
      | (Inl exc, w') \<Rightarrow>
          download_loop urls out_dir results (logger (Error_downloading url exc) w'))"

definition download_many :: "string list \<Rightarrow> path \<Rightarrow> world \<Rightarrow> (error + path list) \<times> world" where
  "download_many urls out_dir w =
     (case download_loop urls out_dir [] w of (results, w') \<Rightarrow> (Inr results, w'))"

definition build_goes_example_url :: "string \<Rightarrow> string \<Rightarrow> string" where
  "build_goes_example_url base_url filename = rstrip_slash base_url @ ''/'' @ filename"

subsection \<open>Notions used to state the properties of the module\<close>

text \<open>\<^verbatim>\<open>Path.is_file()\<close>, and the local path under which \<open>download_file\<close> stores a
  URL: the destination directory joined with the last segment of the URL.\<close>

definition is_file :: "filesystem \<Rightarrow> path \<Rightarrow> bool" where
  "is_file f p = (case stat f p of Inr (File _) \<Rightarrow> True | _ \<Rightarrow> False)"

definition target_path :: "path \<Rightarrow> string \<Rightarrow> path" where
  "target_path out_dir url = path_join out_dir (last (split_sep CHR ''/'' url))"






text \<open>
  Two concrete states. In \<open>demo_world\<close> the directory \<^verbatim>\<open>data\<close> holds one file and
  the server knows three URLs, one of them answered with status 404. In \<open>locked_world\<close>
  the filesystem is empty and nothing may be created below the anchor.
\<close>

definition demo_server :: "string list \<Rightarrow> string \<Rightarrow> reply" where
  "demo_server history url =
     (if url = ''http://h/a.nc'' then Reply 200 [''ab'', '''', ''c''] False
      else if url = ''http://h/b.nc'' then Reply 404 [] False
      else if url = ''http://h/c.nc'' then Reply 200 [''xyz''] False
      else Transport_error)"

definition demo_world :: world where
  "demo_world =
     \<lparr>fs = [[''data''] \<mapsto> Dir, [''data'', ''old.nc''] \<mapsto> File ''old''],
      readonly = (\<lambda>p. False), server = demo_server, requests = [], log = [],
      stdout = [], figures = []\<rparr>"

definition locked_world :: world where
  "locked_world =
     \<lparr>fs = Map.empty, readonly = (\<lambda>p. p = []), server = demo_server, requests = [], log = [],
      stdout = [], figures = []\<rparr>"

section \<open>\<^verbatim>\<open>preprocess_goes.py\<close>\<close>

subsection \<open>Fields and datasets\<close>

text \<open>
  An \<^verbatim>\<open>xarray.DataArray\<close>: its name, its dimensions in order, each with the labels of
  its coordinate index, and its samples, one for each tuple of positions. Coordinates are
  values of a linear order (floating-point numbers other than NaN compare that way). Every
  dimension has a one-dimensional index; other coordinates are not modelled. An
  \<^verbatim>\<open>xarray.Dataset\<close> is the mapping from variable names to fields.
\<close>

record ('a, 'v) field =
  da_name :: "string option"
  dims :: "(string \<times> 'a list) list"
  vals :: "nat list \<Rightarrow> 'v"

type_synonym ('a, 'v) dataset = "string \<rightharpoonup> ('a, 'v) field"

subsection \<open>Label-based slicing\<close>

text \<open>
  \<^verbatim>\<open>Index.get_slice_bound(label, side)\<close> of pandas, which xarray calls for a slice in
  \<^verbatim>\<open>sel\<close>. A label that occurs in the index gives the position of its first
  occurrence (left side) or the position after its last occurrence (right side), when its
  occurrences are adjacent, and raises \<^verbatim>\<open>KeyError\<close> otherwise. A label that does not
  occur is searched by bisection, which an index that is neither ascending nor descending
  does not allow: \<^verbatim>\<open>KeyError\<close> again.
\<close>

datatype side = Left | Right

definition get_slice_bound :: "side \<Rightarrow> ('a::linorder) list \<Rightarrow> 'a \<Rightarrow> error + nat" where
  "get_slice_bound sd idx label =
     (if label \<in> set idx then
        (let before = takeWhile (\<lambda>c. c \<noteq> label) idx;
             run = takeWhile (\<lambda>c. c = label) (drop (length before) idx);
             rest = drop (length before + length run) idx
         in if label \<in> set rest then Inl (KeyError ''Cannot get slice bound for non-unique label'')
            else Inr (case sd of Left \<Rightarrow> length before | Right \<Rightarrow> length before + length run))
      else if sorted idx then Inr (length (filter (\<lambda>c. c < label) idx))
      else if sorted (rev idx) then Inr (length (filter (\<lambda>c. label < c) idx))
      else Inl (KeyError ''label not in index''))"

text \<open>\<^verbatim>\<open>Index.slice_indexer(lo, hi)\<close>: the positional slice \<^verbatim>\<open>[start:stop]\<close>.\<close>

definition slice_indexer :: "('a::linorder) list \<Rightarrow> 'a \<Rightarrow> 'a \<Rightarrow> error + (nat \<times> nat)" where
  "slice_indexer idx lo hi =
     (case get_slice_bound Left idx lo of
        Inl e \<Rightarrow> Inl e
      | Inr start \<Rightarrow>
          (case get_slice_bound Right idx hi of
             Inl e \<Rightarrow> Inl e
           | Inr stop \<Rightarrow> Inr (start, stop)))"

text \<open>Position of a dimension by name.\<close>

fun find_dim :: "string \<Rightarrow> (string \<times> 'a list) list \<Rightarrow> nat option" where
  "find_dim key [] = None"
| "find_dim key ((n, cs) # ds) =
     (if n = key then Some 0 else map_option Suc (find_dim key ds))"

text \<open>\<^verbatim>\<open>isel\<close> with the slice \<^verbatim>\<open>[start:stop]\<close> along dimension \<open>k\<close>: the labels and
  the samples at the positions from \<open>start\<close> up to, not including, \<open>stop\<close>.\<close>

definition isel_slice :: "nat \<Rightarrow> nat \<Rightarrow> nat \<Rightarrow> ('a, 'v) field \<Rightarrow> ('a, 'v) field" where
  "isel_slice k start stop da =
     da\<lparr>dims := (dims da)[k := (fst (dims da ! k), take (stop - start) (drop start (snd (dims da ! k))))],
        vals := (\<lambda>ix. vals da (ix[k := ix ! k + start]))\<rparr>"

text \<open>One entry \<^verbatim>\<open>key: slice(lo, hi)\<close> of the indexers of \<^verbatim>\<open>sel\<close>.\<close>

definition sel_slice :: "string \<Rightarrow> ('a::linorder) \<Rightarrow> 'a \<Rightarrow> ('a, 'v) field \<Rightarrow> error + ('a, 'v) field" where
  "sel_slice key lo hi da =
     (case find_dim key (dims da) of
        None \<Rightarrow> Inl (KeyError key)
      | Some k \<Rightarrow>
          (case slice_indexer (snd (dims da ! k)) lo hi of
             Inl e \<Rightarrow> Inl e
           | Inr (start, stop) \<Rightarrow> Inr (isel_slice k start stop da)))"

text \<open>A Python dictionary display: a later entry replaces an earlier one with the same
  key.\<close>

fun dict_set :: "'k \<Rightarrow> 'x \<Rightarrow> ('k \<times> 'x) list \<Rightarrow> ('k \<times> 'x) list" where
  "dict_set k x [] = [(k, x)]"
| "dict_set k x ((k', x') # d) = (if k' = k then (k', x) # d else (k', x') # dict_set k x d)"

definition dict_display :: "('k \<times> 'x) list \<Rightarrow> ('k \<times> 'x) list" where
  "dict_display entries = foldl (\<lambda>d (k, x). dict_set k x d) [] entries"

text \<open>\<^verbatim>\<open>da.sel(indexers)\<close> for indexers that are all slices.\<close>

fun sel :: "(string \<times> ('a::linorder) \<times> 'a) list \<Rightarrow> ('a, 'v) field \<Rightarrow> error + ('a, 'v) field" where
  "sel [] da = Inr da"
| "sel ((key, lo, hi) # rest) da =
     (case sel_slice key lo hi da of
        Inl e \<Rightarrow> Inl e
      | Inr da' \<Rightarrow> sel rest da')"

subsection \<open>The functions of the module\<close>

text \<open>\<^verbatim>\<open>xr.open_dataset\<close> is the dataset engine, a parameter: it gives the dataset
  stored at a path or fails.\<close>

definition open_goes_scene ::
  "(path \<Rightarrow> error + ('a, 'v) dataset) \<Rightarrow> path \<Rightarrow> error + ('a, 'v) dataset" where
  "open_goes_scene xr_open_dataset p = xr_open_dataset p"

definition select_variable :: "('a, 'v) dataset \<Rightarrow> string \<Rightarrow> error + ('a, 'v) field" where
  "select_variable ds var_name =
     (case ds var_name of
        None \<Rightarrow>
          Inl (KeyError (''La variable '' @ [CHR 0x27] @ var_name @ [CHR 0x27]
                         @ '' no existe en el Dataset.''))
      | Some da \<Rightarrow> Inr da)"

definition subset_domain ::
  "('a::linorder, 'v) field \<Rightarrow> 'a \<times> 'a \<Rightarrow> 'a \<times> 'a \<Rightarrow> string \<Rightarrow> string \<Rightarrow> error + ('a, 'v) field" where
  "subset_domain da lat_bounds lon_bounds lat_name lon_name =
     (case lat_bounds of (lat_min, lat_max) \<Rightarrow>
      case lon_bounds of (lon_min, lon_max) \<Rightarrow>
        sel (dict_display [(lat_name, (lat_min, lat_max)), (lon_name, (lon_min, lon_max))]) da)"

definition prepare_scene ::
  "(path \<Rightarrow> error + ('a::linorder, 'v) dataset) \<Rightarrow> path \<Rightarrow> string \<Rightarrow> 'a \<times> 'a \<Rightarrow> 'a \<times> 'a \<Rightarrow>
     string \<Rightarrow> string \<Rightarrow> error + ('a, 'v) field" where
  "prepare_scene xr_open_dataset p var_name lat_bounds lon_bounds lat_name lon_name =
     (case open_goes_scene xr_open_dataset p of
        Inl e \<Rightarrow> Inl e
      | Inr ds \<Rightarrow>
          (case select_variable ds var_name of
             Inl e \<Rightarrow> Inl e
           | Inr da \<Rightarrow>
               (case subset_domain da lat_bounds lon_bounds lat_name lon_name of
                  Inl e \<Rightarrow> Inl e
                | Inr da_sub \<Rightarrow> Inr da_sub)))"

subsection \<open>Notions used to state the properties of the module\<close>

text \<open>
  The samples of a field: for every tuple of positions within the extents of the
  dimensions, the coordinate labels at these positions with the sample stored there.
\<close>

definition in_range :: "('a, 'v) field \<Rightarrow> nat list \<Rightarrow> bool" where
  "in_range da ix =
     (length ix = length (dims da) \<and> (\<forall>k < length ix. ix ! k < length (snd (dims da ! k))))"

definition labels_at :: "('a, 'v) field \<Rightarrow> nat list \<Rightarrow> 'a list" where
  "labels_at da ix = map (\<lambda>k. snd (dims da ! k) ! (ix ! k)) [0..<length (dims da)]"

definition samples :: "('a, 'v) field \<Rightarrow> ('a list \<times> 'v) set" where
  "samples da = {(labels_at da ix, vals da ix) | ix. in_range da ix}"

text \<open>The labels of a list that lie in a closed interval.\<close>

definition within :: "('a::linorder) \<Rightarrow> 'a \<Rightarrow> 'a list \<Rightarrow> 'a list" where
  "within lo hi cs = filter (\<lambda>c. lo \<le> c \<and> c \<le> hi) cs"

text \<open>A predicate on labels that holds below every label at which it holds.\<close>

definition down_closed :: "('a::linorder \<Rightarrow> bool) \<Rightarrow> bool" where
  "down_closed P = (\<forall>c d. P c \<and> d \<le> c \<longrightarrow> P d)"

text \<open>The three steps composed: each step runs on the result of the one before.\<close>

definition composed_pipeline ::
  "(path \<Rightarrow> error + ('a::linorder, 'v) dataset) \<Rightarrow> path \<Rightarrow> string \<Rightarrow> 'a \<times> 'a \<Rightarrow> 'a \<times> 'a \<Rightarrow>
     string \<Rightarrow> string \<Rightarrow> error + ('a, 'v) field" where
  "composed_pipeline xr_open_dataset p var_name lat_bounds lon_bounds lat_name lon_name =
     and_then (and_then (open_goes_scene xr_open_dataset p) (\<lambda>ds. select_variable ds var_name))
       (\<lambda>da. subset_domain da lat_bounds lon_bounds lat_name lon_name)"

text \<open>
  Concrete data: a field over two ascending axes, a dataset that holds it, an engine that
  knows one file, and a field whose first axis is in no order.
\<close>

definition demo_field :: "(int, int) field" where
  "demo_field =
     \<lparr>da_name = Some ''CMI'',
      dims = [(''y'', [-10, -5, 0, 5, 10]), (''x'', [-90, -85, -80, -75, -70])],
      vals = (\<lambda>ix. 10 * int (ix ! 0) + int (ix ! 1))\<rparr>"

definition demo_dataset :: "(int, int) dataset" where
  "demo_dataset = [''CMI'' \<mapsto> demo_field]"

definition demo_engine :: "path \<Rightarrow> error + (int, int) dataset" where
  "demo_engine p =
     (if p = [''data'', ''scene.nc''] then Inr demo_dataset else Inl (OpenError ''no such file''))"

definition unsorted_field :: "(int, int) field" where
  "unsorted_field =
     \<lparr>da_name = Some ''CMI'', dims = [(''y'', [1, 3, 2]), (''x'', [0])],
      vals = (\<lambda>ix. int (ix ! 0))\<rparr>"

section \<open>\<^verbatim>\<open>plot_goes.py\<close>\<close>

subsection \<open>The plotting library\<close>

text \<open>
  A figure is the list of the drawing calls made on it, one constructor for each call of
  \<^verbatim>\<open>plot_goes_scene\<close>, with the arguments the call receives from the caller. The
  plotting library itself (Matplotlib with Cartopy) is a parameter: \<open>draw_error\<close> tells
  whether a drawing call raises on the figure drawn so far, \<open>rasterize\<close> gives the bytes
  of the image that \<^verbatim>\<open>savefig\<close> renders at a resolution in a format (named as the file
  name writes it; the library ignores its case), or the exception it raises, for instance
  for a format it does not know, and \<open>default_format\<close> is the configured
  \<^verbatim>\<open>savefig.format\<close>.
\<close>

datatype ('a, 'v) artist =
    Axes_plate_carree
  | Set_extent "'a \<times> 'a \<times> 'a \<times> 'a"
  | Coastlines
  | Gridlines
  | Field_plot "('a, 'v) field" string string
  | Track "'a list" "'a list"
  | Title string
  | Tight_layout

record ('a, 'v) backend =
  draw_error :: "('a, 'v) artist list \<Rightarrow> ('a, 'v) artist \<Rightarrow> error option"
  rasterize :: "('a, 'v) artist list \<Rightarrow> nat \<Rightarrow> string \<Rightarrow> error + string"
  default_format :: string

definition draw ::
  "('a, 'v) backend \<Rightarrow> ('a, 'v) artist \<Rightarrow> ('a, 'v) artist list \<Rightarrow> error + ('a, 'v) artist list" where
  "draw b a arts = (case draw_error b arts a of Some e \<Rightarrow> Inl e | None \<Rightarrow> Inr (arts @ [a]))"

text \<open>\<^verbatim>\<open>plt.figure()\<close> registers a figure under the next free number,
  \<^verbatim>\<open>plt.close(fig)\<close> removes it from the registry, \<^verbatim>\<open>plt.show()\<close> displays the
  open figures and leaves the registry as it is.\<close>

definition plt_figure :: "world \<Rightarrow> nat \<times> world" where
  "plt_figure w =
     (let num = Suc (fold max (figures w) 0) in (num, w\<lparr>figures := figures w @ [num]\<rparr>))"

definition plt_close :: "nat \<Rightarrow> world \<Rightarrow> world" where
  "plt_close num w = w\<lparr>figures := filter (\<lambda>n. n \<noteq> num) (figures w)\<rparr>"

definition plt_show :: "world \<Rightarrow> world" where
  "plt_show w = w"

text \<open>\<^verbatim>\<open>str(path)\<close> and \<^verbatim>\<open>print\<close>.\<close>

fun path_str :: "path \<Rightarrow> string" where
  "path_str [] = ''.''"
| "path_str [c] = c"
| "path_str (c # cs) = c @ ''/'' @ path_str cs"

definition print :: "string \<Rightarrow> world \<Rightarrow> world" where
  "print line w = w\<lparr>stdout := stdout w @ [line]\<rparr>"

text \<open>
  \<^verbatim>\<open>os.path.splitext(name)[1][1:]\<close> for the last component of a path: what follows
  the last dot, when a character other than a dot stands before that dot; and
  \<^verbatim>\<open>name.rstrip('.')\<close>.
\<close>

definition file_extension :: "string \<Rightarrow> string" where
  "file_extension name =
     (let rest = dropWhile (\<lambda>c. c \<noteq> CHR ''.'') (rev name)
      in if rest = [] then []
         else if list_ex (\<lambda>c. c \<noteq> CHR ''.'') (tl rest)
              then rev (takeWhile (\<lambda>c. c \<noteq> CHR ''.'') (rev name))
              else [])"

definition rstrip_dot :: "string \<Rightarrow> string" where
  "rstrip_dot s = rev (dropWhile (\<lambda>c. c = CHR ''.'') (rev s))"

text \<open>
  The format and the file name that \<^verbatim>\<open>savefig\<close> settles on when no format is given:
  the extension of the name names the format; a name without an extension is written in
  the default format, to the name with its trailing dots removed and a dot and the format
  appended. The empty path is the string \<^verbatim>\<open>.\<close>.
\<close>

definition savefig_target :: "('a, 'v) backend \<Rightarrow> path \<Rightarrow> string \<times> path" where
  "savefig_target b p =
     (let name = (if p = [] then ''.'' else last p) in
      if file_extension name = []
      then (default_format b, butlast p @ [rstrip_dot name @ ''.'' @ default_format b])
      else (file_extension name, p))"

text \<open>\<^verbatim>\<open>fig.savefig(save_path, dpi)\<close>: the figure is rendered in the format, then
  written to the file.\<close>

definition savefig ::
  "('a, 'v) backend \<Rightarrow> ('a, 'v) artist list \<Rightarrow> path \<Rightarrow> nat \<Rightarrow> world \<Rightarrow> (error + unit) \<times> world" where
  "savefig b arts save_path dpi w =
     (case savefig_target b save_path of (fmt, filename) \<Rightarrow>
        (case rasterize b arts dpi fmt of
           Inl e \<Rightarrow> (Inl e, w)
         | Inr img \<Rightarrow>
             (case open_wb filename w of
                Inl e \<Rightarrow> (Inl e, w)
              | Inr (q, w') \<Rightarrow> (Inr (), write_bytes q img w'))))"

subsection \<open>The function of the module\<close>

text \<open>The drawing calls of \<^verbatim>\<open>plot_goes_scene\<close>, lines 52 to 86, in their order; the
  first call that raises ends them.\<close>

definition draw_scene ::
  "('a, 'v) backend \<Rightarrow> ('a, 'v) field \<Rightarrow> ('a \<times> 'a \<times> 'a \<times> 'a) option \<Rightarrow> string \<Rightarrow> string option \<Rightarrow>
     ('a list \<times> 'a list) option \<Rightarrow> error + ('a, 'v) artist list" where
  "draw_scene b da extent cmap title flight_track =
     and_then (draw b Axes_plate_carree [])
     (\<lambda>a1. and_then (case extent of None \<Rightarrow> Inr a1 | Some ex \<Rightarrow> draw b (Set_extent ex) a1)
     (\<lambda>a2. and_then (draw b Coastlines a2)
     (\<lambda>a3. and_then (draw b Gridlines a3)
     (\<lambda>a4. and_then
        (draw b (Field_plot da cmap
           (case da_name da of None \<Rightarrow> ''Valor'' | Some n \<Rightarrow> if n = [] then ''Valor'' else n)) a4)
     (\<lambda>a5. and_then
        (case flight_track of None \<Rightarrow> Inr a5 | Some (lons, lats) \<Rightarrow> draw b (Track lons lats) a5)
     (\<lambda>a6. and_then (case title of None \<Rightarrow> Inr a6 | Some t \<Rightarrow> draw b (Title t) a6)
     (\<lambda>a7. draw b Tight_layout a7)))))))"

text \<open>Lines 88 to 92: the branch taken when \<^verbatim>\<open>save_path\<close> is given.\<close>

definition save_scene ::
  "('a, 'v) backend \<Rightarrow> ('a, 'v) artist list \<Rightarrow> path \<Rightarrow> world \<Rightarrow> (error + unit) \<times> world" where
  "save_scene b arts save_path w =
     (case mkdir_parents (butlast save_path) w of
        (Inl e, w1) \<Rightarrow> (Inl e, w1)
      | (Inr _, w1) \<Rightarrow>
          (case savefig b arts save_path 150 w1 of
             (Inl e, w2) \<Rightarrow> (Inl e, w2)
           | (Inr _, w2) \<Rightarrow> (Inr (), print (''Figura guardada en: '' @ path_str save_path) w2)))"

definition plot_goes_scene ::
  "('a, 'v) backend \<Rightarrow> ('a, 'v) field \<Rightarrow> ('a \<times> 'a \<times> 'a \<times> 'a) option \<Rightarrow> string \<Rightarrow> string option \<Rightarrow>
     ('a list \<times> 'a list) option \<Rightarrow> path option \<Rightarrow> bool \<Rightarrow> world \<Rightarrow> (error + unit) \<times> world" where
  "plot_goes_scene b da extent cmap title flight_track save_path show_it w =
     (case plt_figure w of (fig, w1) \<Rightarrow>
        (case draw_scene b da extent cmap title flight_track of
           Inl e \<Rightarrow> (Inl e, w1)
         | Inr arts \<Rightarrow>
             (case (case save_path of None \<Rightarrow> (Inr (), w1) | Some sp \<Rightarrow> save_scene b arts sp w1) of
                (Inl e, w2) \<Rightarrow> (Inl e, w2)
              | (Inr _, w2) \<Rightarrow> (Inr (), if show_it then plt_show w2 else plt_close fig w2))))"

subsection \<open>Notions used to state the properties of the module\<close>

text \<open>A plotting library that accepts every drawing call, renders a figure to a fixed
  image and writes PNG by default; and the file onto which a path resolves.\<close>

definition demo_backend :: "(int, int) backend" where
  "demo_backend =
     \<lparr>draw_error = (\<lambda>arts a. None), rasterize = (\<lambda>arts dpi fmt. Inr ''PNG''),
      default_format = ''png''\<rparr>"



text \<open>
  The condition under which a directory and its missing ancestors can be made: on the way
  from the anchor to the directory (the prefixes of its path) there is no regular file and
  no directory closed to new entries.
\<close>

fun prefixes_of :: "'x list \<Rightarrow> 'x list list" where
  "prefixes_of [] = [[]]"
| "prefixes_of (x # xs) = [] # map ((#) x) (prefixes_of xs)"

definition creatable :: "world \<Rightarrow> path \<Rightarrow> bool" where
  "creatable w p =
     (\<forall>q \<in> set (prefixes_of p).
        (case fs w q of Some (File _) \<Rightarrow> False | _ \<Rightarrow> True) \<and> \<not> readonly w q)"

text \<open>A state in which the directory \<^verbatim>\<open>data\<close> exists and is closed to new
  entries, and the states expected after a figure is saved in \<open>demo_world\<close> under
  \<^verbatim>\<open>out/figs/scene.png\<close> and under \<^verbatim>\<open>out/figs/scene\<close>.\<close>

definition sealed_world :: world where
  "sealed_world = demo_world\<lparr>readonly := (\<lambda>p. p = [''data''])\<rparr>"


section \<open>Properties of the downloader\<close>

subsection \<open>Strings and paths\<close>

lemma split_sep_nonempty: "split_sep sep s \<noteq> []"
  by (induction s) (auto split: list.splits)

lemma split_sep_snoc: "split_sep sep (s @ [sep]) = split_sep sep s @ [[]]"
  by (induction s) (auto split: list.splits simp: split_sep_nonempty)

lemma last_split_sep_slash: "url \<noteq> [] \<Longrightarrow> last url = sep \<Longrightarrow> last (split_sep sep url) = []"
  by (metis append_butlast_last_id last_snoc split_sep_snoc)

text \<open>The last segment holds no slash, so joining it to a directory adds at most one
  component to the path.\<close>

lemma last_split_sep_no_sep: "sep \<notin> set (last (split_sep sep s))"
  by (induction s) (auto split: list.splits simp: split_sep_nonempty)

subsection \<open>The filesystem\<close>

lemma walk_append:
  "walk f cur (cs @ [c]) =
     (case walk f cur cs of
        Inl e \<Rightarrow> Inl e
      | Inr q \<Rightarrow>
          (case node_at f q of
             None \<Rightarrow> Inl FileNotFoundError
           | Some (File _) \<Rightarrow> Inl NotADirectoryError
           | Some Dir \<Rightarrow> Inr (if c = ''..'' then butlast q else q @ [c])))"
  by (induction cs arbitrary: cur) (auto split: option.splits node.splits)

lemma is_dir_os_mkdir: "is_dir (fs w) p \<Longrightarrow> os_mkdir p w = Inl FileExistsError"
  by (auto simp: is_dir_def stat_def os_mkdir_def split: sum.splits option.splits)

lemma mkdir_parents_is_dir: "is_dir (fs w) p \<Longrightarrow> mkdir_parents p w = (Inr (), w)"
  by (subst mkdir_parents.simps) (simp add: is_dir_os_mkdir)

lemma exists_child_is_dir:
  "path_exists f (p @ [c]) \<Longrightarrow> is_dir f p"
  by (auto simp: path_exists_def is_dir_def stat_def walk_append split: sum.splits option.splits node.splits)

lemma os_mkdir_frame:
  "os_mkdir p w = Inr w' \<Longrightarrow>
     readonly w' = readonly w \<and> server w' = server w \<and> requests w' = requests w \<and>
     log w' = log w \<and> stdout w' = stdout w \<and> figures w' = figures w"
  by (auto simp: os_mkdir_def split: sum.splits if_splits)

lemma os_mkdir_fs:
  "os_mkdir p w = Inr w' \<Longrightarrow> \<exists>q. fs w q = None \<and> q \<noteq> [] \<and> fs w' = (fs w)(q \<mapsto> Dir) \<and> walk (fs w) [] p = Inr q"
  by (auto simp: os_mkdir_def node_at_def split: sum.splits if_splits)

lemma node_at_mono: "f \<subseteq>\<^sub>m g \<Longrightarrow> node_at f q = Some n \<Longrightarrow> node_at g q = Some n"
  by (auto simp: node_at_def map_le_def dom_def split: if_splits)

lemma walk_mono: "f \<subseteq>\<^sub>m g \<Longrightarrow> walk f cur cs = Inr q \<Longrightarrow> walk g cur cs = Inr q"
proof (induction cs arbitrary: cur)
  case Nil
  then show ?case by simp
next
  case (Cons c cs)
  from Cons.prems(2) have d: "node_at f cur = Some Dir"
    by (auto split: option.splits node.splits)
  then have "node_at g cur = Some Dir" using Cons.prems(1) by (rule node_at_mono[rotated])
  with Cons d show ?case by auto
qed

lemma os_mkdir_is_dir: "os_mkdir p w = Inr w' \<Longrightarrow> is_dir (fs w') p"
proof -
  assume a: "os_mkdir p w = Inr w'"
  then obtain q where q: "fs w q = None" "fs w' = (fs w)(q \<mapsto> Dir)" "walk (fs w) [] p = Inr q"
    using os_mkdir_fs by blast
  have "fs w \<subseteq>\<^sub>m fs w'" using q by (auto simp: map_le_def)
  then have "walk (fs w') [] p = Inr q" using q(3) by (rule walk_mono)
  then show ?thesis using q(2) by (simp add: is_dir_def stat_def node_at_def)
qed

lemma mkdir_exist_ok_is_dir: "mkdir_exist_ok p w = (Inr u, w') \<Longrightarrow> is_dir (fs w') p"
  by (auto simp: mkdir_exist_ok_def os_mkdir_is_dir split: sum.splits error.splits if_splits)

lemma mkdir_exist_ok_frame:
  "mkdir_exist_ok p w = (r, w') \<Longrightarrow>
     readonly w' = readonly w \<and> server w' = server w \<and> requests w' = requests w \<and>
     log w' = log w \<and> stdout w' = stdout w \<and> figures w' = figures w"
  by (auto simp: mkdir_exist_ok_def split: sum.splits error.splits if_splits dest: os_mkdir_frame)

lemma mkdir_parents_is_dir_after: "mkdir_parents p w = (Inr u, w') \<Longrightarrow> is_dir (fs w') p"
proof (induction p w arbitrary: u w' rule: mkdir_parents.induct)
  case (1 p w)
  from "1.prems" show ?case
    by (subst (asm) mkdir_parents.simps)
       (auto simp: os_mkdir_is_dir mkdir_exist_ok_is_dir split: sum.splits error.splits if_splits prod.splits)
qed

lemma mkdir_parents_frame:
  "mkdir_parents p w = (r, w') \<Longrightarrow>
     readonly w' = readonly w \<and> server w' = server w \<and> requests w' = requests w \<and>
     log w' = log w \<and> stdout w' = stdout w \<and> figures w' = figures w"
proof (induction p w arbitrary: r w' rule: mkdir_parents.induct)
  case (1 p w)
  show ?case
  proof (cases "os_mkdir p w")
    case (Inr w1)
    with "1.prems" show ?thesis
      by (subst (asm) mkdir_parents.simps) (auto dest: os_mkdir_frame)
  next
    case (Inl e)
    show ?thesis
    proof (cases "e = FileNotFoundError \<and> p \<noteq> []")
      case False
      with Inl "1.prems" show ?thesis
        by (subst (asm) mkdir_parents.simps) (auto split: error.splits if_splits)
    next
      case True
      obtain r1 w1 where m: "mkdir_parents (butlast p) w = (r1, w1)" by force
      have ih: "readonly w1 = readonly w \<and> server w1 = server w \<and> requests w1 = requests w \<and>
         log w1 = log w \<and> stdout w1 = stdout w \<and> figures w1 = figures w"
        using "1.IH"[of e, OF _ _ _ m] Inl True by auto
      from "1.prems" Inl True m show ?thesis using ih
        by (subst (asm) mkdir_parents.simps) (auto split: sum.splits dest!: mkdir_exist_ok_frame)
    qed
  qed
qed

subsection \<open>\<open>ensure_dir\<close> and \<open>download_file\<close>\<close>

lemma ensure_dir_is_dir: "is_dir (fs w) p \<Longrightarrow> ensure_dir p w = (Inr p, w)"
  by (simp add: ensure_dir_def mkdir_parents_is_dir)

lemma ensure_dir_ok:
  "ensure_dir p w = (Inr d, w1) \<Longrightarrow>
     d = p \<and> is_dir (fs w1) p \<and> requests w1 = requests w \<and> log w1 = log w \<and>
     server w1 = server w \<and> readonly w1 = readonly w"
  by (auto simp: ensure_dir_def split: prod.splits sum.splits
           dest: mkdir_parents_is_dir_after mkdir_parents_frame)

lemma ensure_dir_frame:
  "ensure_dir p w = (r, w1) \<Longrightarrow>
     requests w1 = requests w \<and> log w1 = log w \<and> server w1 = server w \<and> readonly w1 = readonly w"
  by (auto simp: ensure_dir_def split: prod.splits sum.splits dest: mkdir_parents_frame)

lemma is_dir_exists: "is_dir f p \<Longrightarrow> path_exists f p"
  by (simp add: is_dir_def path_exists_def)

lemma exists_target_is_dir:
  assumes "path_exists f (path_join out_dir name)" and "\<not> is_file f out_dir"
  shows "is_dir f out_dir"
proof (cases "name = [] \<or> name = ''.''")
  case True
  with assms show ?thesis
    by (auto simp: path_join_def path_exists_def is_file_def is_dir_def
             split: sum.splits node.splits)
next
  case False
  with assms(1) show ?thesis by (auto simp: path_join_def dest: exists_child_is_dir)
qed

text \<open>A destination that is a regular file cannot be made a directory: \<open>ensure_dir\<close>
  raises, whatever the URL.\<close>

lemma ensure_dir_on_file: "is_file (fs w) p \<Longrightarrow> ensure_dir p w = (Inl FileExistsError, w)"
  unfolding ensure_dir_def
  by (subst mkdir_parents.simps)
     (auto simp: is_file_def is_dir_def stat_def os_mkdir_def
           split: sum.splits option.splits node.splits)

text \<open>
  Claim C1. When the file at \<open>out_dir\<close> joined with the last segment of the URL exists
  already (and \<open>out_dir\<close> names a destination directory, not a regular file),
  \<open>download_file\<close> returns that path, sends no HTTP request and leaves the filesystem,
  hence the contents of the existing file, as they were: the only effect is one
  information record in the log.
\<close>

theorem C1_existing_file_no_download:
  assumes "path_exists (fs w) (target_path out_dir url)"
      and "\<not> is_file (fs w) out_dir"
  shows "download_file url out_dir w =
           (Inr (target_path out_dir url), logger (Info_exists (target_path out_dir url)) w)
         \<and> requests (snd (download_file url out_dir w)) = requests w
         \<and> fs (snd (download_file url out_dir w)) = fs w"
proof -
  have "is_dir (fs w) out_dir"
    using assms unfolding target_path_def by (rule exists_target_is_dir)
  then have "ensure_dir out_dir w = (Inr out_dir, w)" by (rule ensure_dir_is_dir)
  with assms(1) show ?thesis
    by (simp add: download_file_def target_path_def Let_def logger_def)
qed

text \<open>
  Claim C10. For a URL that ends in a slash the last segment is empty, so the target path
  is \<open>out_dir\<close> itself. No HTTP request is sent, whatever the server would answer, and
  once \<open>ensure_dir\<close> has returned, the existence check succeeds: \<open>download_file\<close>
  returns \<open>out_dir\<close> without an error, in the filesystem \<open>ensure_dir\<close> left.
\<close>

theorem C10_trailing_slash:
  assumes "url \<noteq> []" and "last url = CHR ''/''"
  shows "target_path out_dir url = out_dir
         \<and> requests (snd (download_file url out_dir w)) = requests w
         \<and> (\<forall>d w1. ensure_dir out_dir w = (Inr d, w1) \<longrightarrow>
               download_file url out_dir w = (Inr out_dir, logger (Info_exists out_dir) w1)
               \<and> fs (snd (download_file url out_dir w)) = fs w1)"
proof -
  have seg: "last (split_sep CHR ''/'' url) = []"
    using assms by (rule last_split_sep_slash)
  then have t: "target_path out_dir url = out_dir" by (simp add: target_path_def path_join_def)
  obtain r w1 where e: "ensure_dir out_dir w = (r, w1)" by force
  show ?thesis
  proof (cases r)
    case (Inl exc)
    with e t show ?thesis
      using ensure_dir_frame[OF e] by (simp add: download_file_def)
  next
    case (Inr d)
    with e have ok: "d = out_dir" "is_dir (fs w1) out_dir" "requests w1 = requests w"
      using ensure_dir_ok[of out_dir w d w1] by auto
    then have "path_exists (fs w1) out_dir" by (simp add: is_dir_exists)
    with e Inr ok t seg show ?thesis
      by (simp add: download_file_def path_join_def logger_def)
  qed
qed

subsection \<open>\<open>download_many\<close>\<close>









text \<open>A batch of four URLs in \<open>demo_world\<close>: the second is answered with status 404 and
  the file of the third exists already.\<close>

lemma download_many_example:
  "fst (download_many [''http://h/a.nc'', ''http://h/b.nc'', ''http://h/old.nc'', ''http://h/c.nc''] [''data''] demo_world)
     = Inr [[''data'', ''a.nc''], [''data'', ''old.nc''], [''data'', ''c.nc'']]
   \<and> requests (snd (download_many [''http://h/a.nc'', ''http://h/b.nc'', ''http://h/old.nc'', ''http://h/c.nc''] [''data''] demo_world))
     = [''http://h/a.nc'', ''http://h/b.nc'', ''http://h/c.nc'']
   \<and> fs (snd (download_many [''http://h/a.nc'', ''http://h/b.nc'', ''http://h/old.nc'', ''http://h/c.nc''] [''data''] demo_world)) [''data'', ''a.nc'']
     = Some (File ''abc'')"
proof -
  have e: "ensure_dir [''data''] w = (Inr [''data''], w)" if "fs w [''data''] = Some Dir" for w
    using that by (intro ensure_dir_is_dir) (simp add: is_dir_def stat_def node_at_def)
  show ?thesis
    by (simp add: download_many_def download_file_def e demo_world_def demo_server_def Let_def
          path_join_def path_exists_def stat_def node_at_def logger_def requests_get_def
          open_wb_def write_bytes_def)
qed

subsection \<open>\<open>build_goes_example_url\<close>\<close>

lemma rstrip_slash_snoc: "rstrip_slash (b @ ''/'') = rstrip_slash b"
  by (simp add: rstrip_slash_def)

lemma rstrip_slash_id: "b = [] \<or> last b \<noteq> CHR ''/'' \<Longrightarrow> rstrip_slash b = b"
  by (cases b rule: rev_cases) (auto simp: rstrip_slash_def)

text \<open>
  Claim C7. Both example calls return \<^verbatim>\<open>https://example.com/data/file.nc\<close>; a slash
  appended to the base URL does not change the result; and for a base URL without a
  trailing slash the result is the base, a slash and the filename, whatever the two
  strings are.
\<close>

theorem C7_build_url:
  "build_goes_example_url ''https://example.com/data/'' ''file.nc'' = ''https://example.com/data/file.nc''
   \<and> build_goes_example_url ''https://example.com/data'' ''file.nc'' = ''https://example.com/data/file.nc''
   \<and> build_goes_example_url (base_url @ ''/'') filename = build_goes_example_url base_url filename
   \<and> (base_url = [] \<or> last base_url \<noteq> CHR ''/'' \<longrightarrow>
        build_goes_example_url base_url filename = base_url @ ''/'' @ filename)"
  by (simp add: build_goes_example_url_def rstrip_slash_snoc rstrip_slash_id)
     (simp add: rstrip_slash_def)

text \<open>The last part of C7 at a base URL without a trailing slash.\<close>

theorem C7_build_url_witness:
  "(''s3://bucket'' = [] \<or> last ''s3://bucket'' \<noteq> CHR ''/'')
   \<and> build_goes_example_url ''s3://bucket'' ''x.nc'' = ''s3://bucket/x.nc''"
  using C7_build_url[of "''s3://bucket''" "''x.nc''"] by simp

subsection \<open>The properties at concrete states\<close>

text \<open>C1 in \<open>demo_world\<close>: the file \<^verbatim>\<open>data/old.nc\<close> keeps its contents.\<close>

theorem C1_existing_file_no_download_witness:
  "path_exists (fs demo_world) (target_path [''data''] ''http://h/old.nc'')
   \<and> \<not> is_file (fs demo_world) [''data'']
   \<and> download_file ''http://h/old.nc'' [''data''] demo_world =
       (Inr [''data'', ''old.nc''], demo_world\<lparr>log := [Info_exists [''data'', ''old.nc'']]\<rparr>)
   \<and> fs (snd (download_file ''http://h/old.nc'' [''data''] demo_world)) [''data'', ''old.nc'']
       = Some (File ''old'')"
proof -
  have t: "target_path [''data''] ''http://h/old.nc'' = [''data'', ''old.nc'']"
    by (simp add: target_path_def path_join_def)
  have e: "path_exists (fs demo_world) [''data'', ''old.nc'']"
    by (simp add: path_exists_def stat_def node_at_def demo_world_def)
  have d: "\<not> is_file (fs demo_world) [''data'']"
    by (simp add: is_file_def stat_def node_at_def demo_world_def)
  from C1_existing_file_no_download[of demo_world "[''data'']" "''http://h/old.nc''"] e d t
  show ?thesis by (simp add: logger_def demo_world_def)
qed

text \<open>C10 in \<open>demo_world\<close>, with a destination directory that did not exist.\<close>

theorem C10_trailing_slash_witness:
  "''http://h/dir/'' \<noteq> [] \<and> last ''http://h/dir/'' = CHR ''/''
   \<and> ensure_dir [''new''] demo_world = (Inr [''new''], demo_world\<lparr>fs := (fs demo_world)([''new''] \<mapsto> Dir)\<rparr>)
   \<and> fst (download_file ''http://h/dir/'' [''new''] demo_world) = Inr [''new'']
   \<and> requests (snd (download_file ''http://h/dir/'' [''new''] demo_world)) = []"
proof -
  have e: "ensure_dir [''new''] demo_world = (Inr [''new''], demo_world\<lparr>fs := (fs demo_world)([''new''] \<mapsto> Dir)\<rparr>)"
    by (subst ensure_dir_def, subst mkdir_parents.simps)
       (simp add: os_mkdir_def node_at_def demo_world_def)
  from C10_trailing_slash[of "''http://h/dir/''" "[''new'']" demo_world] e
  show ?thesis by (simp add: demo_world_def logger_def)
qed

section \<open>Properties of the scene preparer\<close>

subsection \<open>Ascending lists\<close>

lemma sorted_partition:
  "sorted idx \<Longrightarrow> down_closed P \<Longrightarrow> filter P idx @ filter (\<lambda>c. \<not> P c) idx = idx"
proof (induction idx)
  case Nil
  then show ?case by simp
next
  case (Cons y ys)
  show ?case
  proof (cases "P y")
    case True
    with Cons show ?thesis by simp
  next
    case False
    have "\<forall>c \<in> set ys. \<not> P c"
      using Cons.prems False unfolding down_closed_def by (metis sorted_simps(2))
    then have "filter P ys = []" by (simp add: filter_empty_conv)
    with Cons False show ?thesis by simp
  qed
qed

lemma sorted_take_filter:
  assumes "sorted idx" "down_closed P"
  shows "take (length (filter P idx)) idx = filter P idx"
    and "drop (length (filter P idx)) idx = filter (\<lambda>c. \<not> P c) idx"
proof -
  have e: "filter P idx @ filter (\<lambda>c. \<not> P c) idx = idx" using assms by (rule sorted_partition)
  show "take (length (filter P idx)) idx = filter P idx"
    by (subst (2) e[symmetric]) simp
  show "drop (length (filter P idx)) idx = filter (\<lambda>c. \<not> P c) idx"
    by (subst (2) e[symmetric]) simp
qed

lemma sorted_nth_filter:
  assumes "sorted idx" "down_closed P" "m < length idx"
  shows "P (idx ! m) \<longleftrightarrow> m < length (filter P idx)"
proof -
  let ?A = "filter P idx" and ?C = "filter (\<lambda>c. \<not> P c) idx"
  have e: "idx = ?A @ ?C" using assms(1,2) by (simp add: sorted_partition)
  show ?thesis
  proof (cases "m < length ?A")
    case True
    then have "idx ! m = ?A ! m" by (subst e) (simp add: nth_append)
    moreover have "?A ! m \<in> set ?A" using True by (rule nth_mem)
    ultimately show ?thesis using True by auto
  next
    case False
    then have "idx ! m = ?C ! (m - length ?A)" by (subst e) (simp add: nth_append)
    moreover have "m - length ?A < length ?C"
      using False assms(3) by (subst (asm) (2) e) simp
    then have "?C ! (m - length ?A) \<in> set ?C" by (rule nth_mem)
    ultimately show ?thesis using False by auto
  qed
qed

lemma down_closed_less: "down_closed (\<lambda>c. c < (x::'a::linorder))"
  by (auto simp: down_closed_def)

lemma down_closed_le: "down_closed (\<lambda>c. c \<le> (x::'a::linorder))"
  by (auto simp: down_closed_def)

lemma sorted_split3:
  assumes "sorted idx"
  shows "idx = filter (\<lambda>c. c < x) idx @ filter (\<lambda>c. c = x) idx @ filter (\<lambda>c. x < c) idx"
proof -
  have 1: "idx = filter (\<lambda>c. c < x) idx @ filter (\<lambda>c. \<not> c < x) idx"
    using sorted_partition[OF assms down_closed_less, of x] by simp
  have s: "sorted (filter (\<lambda>c. \<not> c < x) idx)" using assms by (rule sorted_wrt_filter)
  have 2: "filter (\<lambda>c. \<not> c < x) idx
           = filter (\<lambda>c. c \<le> x) (filter (\<lambda>c. \<not> c < x) idx) @ filter (\<lambda>c. \<not> c \<le> x) (filter (\<lambda>c. \<not> c < x) idx)"
    using sorted_partition[OF s down_closed_le, of x] by simp
  have 3: "filter (\<lambda>c. c \<le> x) (filter (\<lambda>c. \<not> c < x) idx) = filter (\<lambda>c. c = x) idx"
    by (auto intro: filter_cong)
  have 4: "filter (\<lambda>c. \<not> c \<le> x) (filter (\<lambda>c. \<not> c < x) idx) = filter (\<lambda>c. x < c) idx"
    by (auto intro: filter_cong)
  show ?thesis using 1 2 3 4 by metis
qed

subsection \<open>Slice bounds on an ascending index\<close>

lemma takeWhile_none: "(\<And>c. c \<in> set xs \<Longrightarrow> \<not> P c) \<Longrightarrow> takeWhile P xs = []"
  by (cases xs) auto

lemma get_slice_bound_sorted:
  assumes "sorted idx"
  shows "get_slice_bound Left idx x = Inr (length (filter (\<lambda>c. c < x) idx))"
    and "get_slice_bound Right idx x = Inr (length (filter (\<lambda>c. c \<le> x) idx))"
proof -
  let ?A = "filter (\<lambda>c. c < x) idx" and ?B = "filter (\<lambda>c. c = x) idx"
  let ?C = "filter (\<lambda>c. x < c) idx"
  have e: "idx = ?A @ ?B @ ?C" using assms by (rule sorted_split3)
  have le: "length (filter (\<lambda>c. c \<le> x) idx) = length ?A + length ?B"
  proof -
    have "filter (\<lambda>c. c \<le> x) idx = filter (\<lambda>c. c \<le> x) (?A @ ?B @ ?C)" using e by simp
    also have "\<dots> = filter (\<lambda>c. c \<le> x) ?A @ filter (\<lambda>c. c \<le> x) ?B @ filter (\<lambda>c. c \<le> x) ?C"
      by (simp only: filter_append)
    also have "filter (\<lambda>c. c \<le> x) ?A = ?A" by (rule filter_True) auto
    also have "filter (\<lambda>c. c \<le> x) ?B = ?B" by (rule filter_True) auto
    also have "filter (\<lambda>c. c \<le> x) ?C = []" by (auto simp: filter_empty_conv)
    finally show ?thesis by simp
  qed
  show "get_slice_bound Left idx x = Inr (length ?A)"
   and "get_slice_bound Right idx x = Inr (length (filter (\<lambda>c. c \<le> x) idx))"
  proof (atomize (full), cases "x \<in> set idx")
    case False
    then have "?B = []" by (auto simp: filter_empty_conv)
    with False assms le show "get_slice_bound Left idx x = Inr (length ?A) \<and>
        get_slice_bound Right idx x = Inr (length (filter (\<lambda>c. c \<le> x) idx))"
      by (simp add: get_slice_bound_def)
  next
    case True
    then have "?B \<noteq> []" by (auto simp: filter_empty_conv)
    then obtain a B' where ab: "?B = a # B'" by (cases ?B) auto
    have "a \<in> set ?B" by (subst ab) simp
    then have "a = x" by simp
    with ab have b: "?B = x # B'" by simp
    have tw: "takeWhile (\<lambda>c. c \<noteq> x) idx = ?A"
    proof -
      have "takeWhile (\<lambda>c. c \<noteq> x) (?A @ ?B @ ?C) = ?A @ takeWhile (\<lambda>c. c \<noteq> x) (?B @ ?C)"
        by (rule takeWhile_append2) auto
      then show ?thesis using b e by simp
    qed
    have dr: "drop (length ?A) idx = ?B @ ?C" by (subst e) simp
    have run: "takeWhile (\<lambda>c. c = x) (?B @ ?C) = ?B"
    proof -
      have "takeWhile (\<lambda>c. c = x) (?B @ ?C) = ?B @ takeWhile (\<lambda>c. c = x) ?C"
        by (rule takeWhile_append2) auto
      moreover have "takeWhile (\<lambda>c. c = x) ?C = []"
        by (rule takeWhile_none) auto
      ultimately show ?thesis by simp
    qed
    have rest: "drop (length ?A + length ?B) idx = ?C" by (subst e) simp
    have nx: "x \<notin> set ?C" by simp
    show "get_slice_bound Left idx x = Inr (length ?A) \<and>
        get_slice_bound Right idx x = Inr (length (filter (\<lambda>c. c \<le> x) idx))"
      using True unfolding get_slice_bound_def tw Let_def dr run rest le
      using nx by simp
  qed
qed

lemma slice_sorted_within:
  assumes "sorted idx"
  shows "take (length (filter (\<lambda>c. c \<le> hi) idx) - length (filter (\<lambda>c. c < lo) idx))
              (drop (length (filter (\<lambda>c. c < lo) idx)) idx) = within lo hi idx"
proof -
  let ?A = "filter (\<lambda>c. c < lo) idx" and ?D = "filter (\<lambda>c. \<not> c < lo) idx"
  have dr: "drop (length ?A) idx = ?D"
    using assms down_closed_less by (rule sorted_take_filter(2))
  have sD: "sorted ?D" using assms by (rule sorted_wrt_filter)
  have w: "within lo hi idx = filter (\<lambda>c. c \<le> hi) ?D"
    by (auto simp: within_def intro: filter_cong)
  have tk: "take (length (filter (\<lambda>c. c \<le> hi) ?D)) ?D = filter (\<lambda>c. c \<le> hi) ?D"
    using sD down_closed_le by (rule sorted_take_filter(1))
  have e: "idx = ?A @ ?D" using sorted_partition[OF assms down_closed_less, of lo] by simp
  have len: "length (filter (\<lambda>c. c \<le> hi) idx)
             = length (filter (\<lambda>c. c \<le> hi) ?A) + length (filter (\<lambda>c. c \<le> hi) ?D)"
    by (subst e) simp
  show ?thesis
  proof (cases "lo \<le> hi")
    case True
    have "filter (\<lambda>c. c \<le> hi) ?A = ?A" by (rule filter_True) (use True in auto)
    with len have "length (filter (\<lambda>c. c \<le> hi) idx) - length ?A = length (filter (\<lambda>c. c \<le> hi) ?D)"
      by simp
    then show ?thesis using dr tk w by simp
  next
    case False
    have "filter (\<lambda>c. c \<le> hi) ?D = []" using False by (auto simp: filter_empty_conv)
    moreover have "length (filter (\<lambda>c. c \<le> hi) ?A) \<le> length ?A" by (rule length_filter_le)
    ultimately have "length (filter (\<lambda>c. c \<le> hi) idx) - length ?A = 0" using len by simp
    then show ?thesis using w \<open>filter (\<lambda>c. c \<le> hi) ?D = []\<close> by simp
  qed
qed

lemma slice_indexer_sorted:
  "sorted idx \<Longrightarrow>
     slice_indexer idx lo hi =
       Inr (length (filter (\<lambda>c. c < lo) idx), length (filter (\<lambda>c. c \<le> hi) idx))"
  by (simp add: slice_indexer_def get_slice_bound_sorted)

lemma sorted_nth_within:
  assumes "sorted idx" "m < length idx"
  shows "(lo \<le> idx ! m \<and> idx ! m \<le> hi) \<longleftrightarrow>
         (length (filter (\<lambda>c. c < lo) idx) \<le> m \<and> m < length (filter (\<lambda>c. c \<le> hi) idx))"
  using sorted_nth_filter[OF assms(1) down_closed_less assms(2), of lo]
        sorted_nth_filter[OF assms(1) down_closed_le assms(2), of hi]
  by auto

subsection \<open>Slicing a field along one dimension\<close>

lemma find_dim_Some: "find_dim key ds = Some k \<Longrightarrow> k < length ds \<and> fst (ds ! k) = key"
  by (induction ds arbitrary: k) (auto split: if_splits)

lemma find_dim_names: "map fst ds = map fst ds' \<Longrightarrow> find_dim key ds = find_dim key ds'"
proof (induction ds arbitrary: ds')
  case Nil
  then show ?case by simp
next
  case (Cons d ds)
  then obtain d' ds'' where "ds' = d' # ds''" by (cases ds') auto
  with Cons show ?case by (cases d; cases d') auto
qed

lemma map_fst_update: "k < length ds \<Longrightarrow> map fst (ds[k := (fst (ds ! k), cs)]) = map fst ds"
  by (simp add: map_update list_update_same_conv)

lemma isel_slice_dims:
  "map fst (dims (isel_slice k s e da)) = map fst (dims da)"
  by (cases "k < length (dims da)") (simp_all add: isel_slice_def map_fst_update list_update_beyond)

lemma sel_slice_sorted:
  assumes "find_dim key (dims da) = Some k" and "sorted (snd (dims da ! k))"
  shows "sel_slice key lo hi da =
           Inr (isel_slice k (length (filter (\<lambda>c. c < lo) (snd (dims da ! k))))
                             (length (filter (\<lambda>c. c \<le> hi) (snd (dims da ! k)))) da)"
  using assms by (simp add: sel_slice_def slice_indexer_sorted)

lemma isel_slice_sorted_dims:
  assumes "find_dim key (dims da) = Some k" and "sorted (snd (dims da ! k))"
  shows "dims (isel_slice k (length (filter (\<lambda>c. c < lo) (snd (dims da ! k))))
                            (length (filter (\<lambda>c. c \<le> hi) (snd (dims da ! k)))) da)
         = (dims da)[k := (key, within lo hi (snd (dims da ! k)))]"
  using assms find_dim_Some[OF assms(1)]
  by (simp add: isel_slice_def slice_sorted_within)

lemma nth_slice:
  "n < length (take (e - s) (drop s cs)) \<Longrightarrow>
     take (e - s) (drop s cs) ! n = cs ! (s + n) \<and> s + n < length cs \<and> s + n < e"
  by auto

lemma length_slice: "s \<le> m \<Longrightarrow> m < e \<Longrightarrow> m < length cs \<Longrightarrow> m - s < length (take (e - s) (drop s cs))"
  by auto

lemma labels_at_nth:
  "k < length (dims da) \<Longrightarrow> labels_at da ix ! k = snd (dims da ! k) ! (ix ! k)"
  by (simp add: labels_at_def)

lemma samples_isel_sorted:
  fixes da :: "('a::linorder, 'v) field" and lo hi :: 'a
  assumes k: "k < length (dims da)" and srt: "sorted (snd (dims da ! k))"
  defines "s \<equiv> length (filter (\<lambda>c. c < lo) (snd (dims da ! k)))"
      and "e \<equiv> length (filter (\<lambda>c. c \<le> hi) (snd (dims da ! k)))"
  shows "samples (isel_slice k s e da) = {(l, v) \<in> samples da. lo \<le> l ! k \<and> l ! k \<le> hi}"
proof -
  let ?cs = "snd (dims da ! k)"
  let ?W = "take (e - s) (drop s ?cs)"
  let ?sub = "isel_slice k s e da"
  have d: "dims ?sub = (dims da)[k := (fst (dims da ! k), ?W)]" by (simp add: isel_slice_def)
  have len: "length (dims ?sub) = length (dims da)" by (simp add: d)
  have dk: "snd (dims ?sub ! k) = ?W" using k by (simp add: d)
  have dj: "\<And>j. j \<noteq> k \<Longrightarrow> dims ?sub ! j = dims da ! j" by (simp add: d)
  have v: "\<And>ix. vals ?sub ix = vals da (ix[k := ix ! k + s])" by (simp add: isel_slice_def)
  show ?thesis
  proof (rule set_eqI, rule iffI)
    fix p assume "p \<in> samples ?sub"
    then obtain ix where ix: "in_range ?sub ix" "p = (labels_at ?sub ix, vals ?sub ix)"
      by (auto simp: samples_def)
    let ?ix = "ix[k := ix ! k + s]"
    have lix: "length ix = length (dims da)" using ix(1) len by (simp add: in_range_def)
    have kW: "ix ! k < length ?W" using ix(1) k lix dk by (auto simp: in_range_def)
    note sl = nth_slice[OF kW]
    have r: "in_range da ?ix"
      unfolding in_range_def
    proof (intro conjI allI impI)
      show "length ?ix = length (dims da)" using lix by simp
      fix j assume "j < length ?ix"
      then have j: "j < length ix" by simp
      show "?ix ! j < length (snd (dims da ! j))"
      proof (cases "j = k")
        case True
        then show ?thesis using sl j by (simp add: add.commute)
      next
        case False
        then show ?thesis using ix(1) j dj[of j] by (auto simp: in_range_def)
      qed
    qed
    have lab: "labels_at ?sub ix = labels_at da ?ix"
      unfolding labels_at_def len
    proof (rule map_cong[OF refl])
      fix j assume "j \<in> set [0..<length (dims da)]"
      then have j: "j < length ix" using lix by simp
      show "snd (dims ?sub ! j) ! (ix ! j) = snd (dims da ! j) ! (?ix ! j)"
      proof (cases "j = k")
        case True
        then show ?thesis using sl j dk by (simp add: add.commute)
      next
        case False
        then show ?thesis using dj[of j] by simp
      qed
    qed
    have "labels_at da ?ix ! k = ?cs ! (?ix ! k)" using k by (rule labels_at_nth)
    also have "\<dots> = ?cs ! (s + ix ! k)" using k lix by (simp add: add.commute)
    finally have lk: "labels_at da ?ix ! k = ?cs ! (s + ix ! k)" .
    have "lo \<le> ?cs ! (s + ix ! k) \<and> ?cs ! (s + ix ! k) \<le> hi"
      using sorted_nth_within[OF srt, of "s + ix ! k" lo hi] sl by (simp add: s_def e_def)
    with lk lab r ix(2) v show "p \<in> {(l, v) \<in> samples da. lo \<le> l ! k \<and> l ! k \<le> hi}"
      by (auto simp: samples_def)
  next
    fix p assume "p \<in> {(l, v) \<in> samples da. lo \<le> l ! k \<and> l ! k \<le> hi}"
    then obtain ix where ix: "in_range da ix" "p = (labels_at da ix, vals da ix)"
        and b: "lo \<le> labels_at da ix ! k" "labels_at da ix ! k \<le> hi"
      by (auto simp: samples_def)
    let ?ix = "ix[k := ix ! k - s]"
    have lix: "length ix = length (dims da)" using ix(1) by (simp add: in_range_def)
    have m: "ix ! k < length ?cs" using ix(1) k lix by (auto simp: in_range_def)
    have "lo \<le> ?cs ! (ix ! k) \<and> ?cs ! (ix ! k) \<le> hi" using b labels_at_nth[OF k, of ix] by simp
    then have se: "s \<le> ix ! k" "ix ! k < e"
      using sorted_nth_within[OF srt m, of lo hi] by (simp_all add: s_def e_def)
    have kW: "ix ! k - s < length ?W" using se m by (rule length_slice)
    have restore: "?ix[k := ?ix ! k + s] = ix" using se k lix by (simp add: list_update_same_conv)
    have r: "in_range ?sub ?ix"
      unfolding in_range_def len
    proof (intro conjI allI impI)
      show "length ?ix = length (dims da)" using lix by simp
      fix j assume "j < length ?ix"
      then have j: "j < length ix" by simp
      show "?ix ! j < length (snd (dims ?sub ! j))"
      proof (cases "j = k")
        case True
        then show ?thesis using kW j dk by simp
      next
        case False
        then show ?thesis using ix(1) j dj[of j] by (auto simp: in_range_def)
      qed
    qed
    have lab: "labels_at ?sub ?ix = labels_at da ix"
      unfolding labels_at_def len
    proof (rule map_cong[OF refl])
      fix j assume "j \<in> set [0..<length (dims da)]"
      then have j: "j < length ix" using lix by simp
      show "snd (dims ?sub ! j) ! (?ix ! j) = snd (dims da ! j) ! (ix ! j)"
      proof (cases "j = k")
        case True
        then show ?thesis using nth_slice[OF kW] se j dk by simp
      next
        case False
        then show ?thesis using dj[of j] by simp
      qed
    qed
    have "vals ?sub ?ix = vals da ix" using v[of ?ix] restore by simp
    with lab r ix(2) show "p \<in> samples ?sub"
      unfolding samples_def by (intro CollectI exI[of _ ?ix]) simp
  qed
qed

subsection \<open>\<open>subset_domain\<close>\<close>

lemma dict_display_two:
  "dict_display [(k1, x1), (k2, x2)] = (if k1 = k2 then [(k1, x2)] else [(k1, x1), (k2, x2)])"
  by (simp add: dict_display_def)

lemma isel_slice_name: "da_name (isel_slice k s e da) = da_name da"
  by (simp add: isel_slice_def)

lemma sorted_within: "sorted cs \<Longrightarrow> sorted (within lo hi cs)"
  unfolding within_def by (rule sorted_wrt_filter)

lemma subset_domain_sorted:
  fixes da :: "('a::linorder, 'v) field"
  assumes ne: "lat_name \<noteq> lon_name"
      and i: "find_dim lat_name (dims da) = Some i" and si: "sorted (snd (dims da ! i))"
      and j: "find_dim lon_name (dims da) = Some j" and sj: "sorted (snd (dims da ! j))"
  shows "\<exists>sub. subset_domain da (lat_min, lat_max) (lon_min, lon_max) lat_name lon_name = Inr sub
           \<and> da_name sub = da_name da
           \<and> dims sub = (dims da)[i := (lat_name, within lat_min lat_max (snd (dims da ! i))),
                                   j := (lon_name, within lon_min lon_max (snd (dims da ! j)))]
           \<and> samples sub = {(l, v) \<in> samples da.
                 lat_min \<le> l ! i \<and> l ! i \<le> lat_max \<and> lon_min \<le> l ! j \<and> l ! j \<le> lon_max}"
proof -
  let ?ys = "snd (dims da ! i)" and ?xs = "snd (dims da ! j)"
  let ?s1 = "length (filter (\<lambda>c. c < lat_min) ?ys)" and ?e1 = "length (filter (\<lambda>c. c \<le> lat_max) ?ys)"
  let ?d1 = "isel_slice i ?s1 ?e1 da"
  have il: "i < length (dims da)" "fst (dims da ! i) = lat_name" using find_dim_Some[OF i] by auto
  have jl: "j < length (dims da)" "fst (dims da ! j) = lon_name" using find_dim_Some[OF j] by auto
  have ij: "i \<noteq> j" using il jl ne by auto
  have 1: "sel_slice lat_name lat_min lat_max da = Inr ?d1" using i si by (rule sel_slice_sorted)
  have d1: "dims ?d1 = (dims da)[i := (lat_name, within lat_min lat_max ?ys)]"
    using i si by (rule isel_slice_sorted_dims)
  have s1: "samples ?d1 = {(l, v) \<in> samples da. lat_min \<le> l ! i \<and> l ! i \<le> lat_max}"
    using il(1) si by (rule samples_isel_sorted)
  have j1: "find_dim lon_name (dims ?d1) = Some j"
    using j find_dim_names[OF isel_slice_dims, of lon_name i ?s1 ?e1 da] by simp
  have x1: "snd (dims ?d1 ! j) = ?xs" using ij by (simp add: d1)
  let ?s2 = "length (filter (\<lambda>c. c < lon_min) ?xs)" and ?e2 = "length (filter (\<lambda>c. c \<le> lon_max) ?xs)"
  let ?d2 = "isel_slice j ?s2 ?e2 ?d1"
  have sj1: "sorted (snd (dims ?d1 ! j))" using sj x1 by simp
  have 2: "sel_slice lon_name lon_min lon_max ?d1 = Inr ?d2"
    using sel_slice_sorted[OF j1 sj1, of lon_min lon_max] x1 by simp
  have d2: "dims ?d2 = (dims ?d1)[j := (lon_name, within lon_min lon_max ?xs)]"
    using isel_slice_sorted_dims[OF j1 sj1, of lon_min lon_max] x1 by simp
  have jl1: "j < length (dims ?d1)" using jl(1) by (simp add: d1)
  have s2: "samples ?d2 = {(l, v) \<in> samples ?d1. lon_min \<le> l ! j \<and> l ! j \<le> lon_max}"
    using samples_isel_sorted[OF jl1 sj1, of lon_min lon_max] x1 by simp
  have "subset_domain da (lat_min, lat_max) (lon_min, lon_max) lat_name lon_name = Inr ?d2"
    using ne 1 2 by (simp add: subset_domain_def dict_display_two)
  moreover have "da_name ?d2 = da_name da" by (simp add: isel_slice_name)
  moreover have "dims ?d2 = (dims da)[i := (lat_name, within lat_min lat_max ?ys),
                                      j := (lon_name, within lon_min lon_max ?xs)]"
    using d1 d2 by simp
  moreover have "samples ?d2 = {(l, v) \<in> samples da.
                 lat_min \<le> l ! i \<and> l ! i \<le> lat_max \<and> lon_min \<le> l ! j \<and> l ! j \<le> lon_max}"
    using s1 s2 by auto
  ultimately show ?thesis by blast
qed

lemma isel_slice_all:
  "k < length (dims da) \<Longrightarrow> isel_slice k 0 (length (snd (dims da ! k))) da = da"
  by (simp add: isel_slice_def)

lemma sel_slice_noop:
  fixes da :: "('a::linorder, 'v) field"
  assumes k: "find_dim key (dims da) = Some k" and srt: "sorted (snd (dims da ! k))"
      and all: "\<And>c. c \<in> set (snd (dims da ! k)) \<Longrightarrow> lo \<le> c \<and> c \<le> hi"
  shows "sel_slice key lo hi da = Inr da"
proof -
  let ?cs = "snd (dims da ! k)"
  have b: "\<forall>c \<in> set ?cs. lo \<le> c \<and> c \<le> hi" using all by blast
  then have "filter (\<lambda>c. c < lo) ?cs = []" by (auto simp: filter_empty_conv)
  moreover have "filter (\<lambda>c. c \<le> hi) ?cs = ?cs" using b by (simp add: filter_id_conv)
  ultimately show ?thesis
    using sel_slice_sorted[OF k srt, of lo hi] find_dim_Some[OF k] by (simp add: isel_slice_all)
qed

lemma subset_domain_idempotent_sorted:
  fixes da :: "('a::linorder, 'v) field"
  assumes ne: "lat_name \<noteq> lon_name"
      and i: "find_dim lat_name (dims da) = Some i" and si: "sorted (snd (dims da ! i))"
      and j: "find_dim lon_name (dims da) = Some j" and sj: "sorted (snd (dims da ! j))"
      and wider: "lat_min' \<le> lat_min" "lat_max \<le> lat_max'" "lon_min' \<le> lon_min" "lon_max \<le> lon_max'"
  shows "\<exists>sub. subset_domain da (lat_min, lat_max) (lon_min, lon_max) lat_name lon_name = Inr sub
           \<and> subset_domain sub (lat_min', lat_max') (lon_min', lon_max') lat_name lon_name = Inr sub"
proof -
  let ?ys = "snd (dims da ! i)" and ?xs = "snd (dims da ! j)"
  from subset_domain_sorted[OF ne i si j sj, of lat_min lat_max lon_min lon_max]
  obtain sub where sub: "subset_domain da (lat_min, lat_max) (lon_min, lon_max) lat_name lon_name = Inr sub"
    and d: "dims sub = (dims da)[i := (lat_name, within lat_min lat_max ?ys),
                                  j := (lon_name, within lon_min lon_max ?xs)]"
    by blast
  have il: "i < length (dims da)" "fst (dims da ! i) = lat_name" using find_dim_Some[OF i] by auto
  have jl: "j < length (dims da)" "fst (dims da ! j) = lon_name" using find_dim_Some[OF j] by auto
  have ij: "i \<noteq> j" using il jl ne by auto
  have names: "map fst (dims sub) = map fst (dims da)"
    using il jl by (intro nth_equalityI) (auto simp: d nth_list_update)
  have i': "find_dim lat_name (dims sub) = Some i" using i find_dim_names[OF names] by simp
  have j': "find_dim lon_name (dims sub) = Some j" using j find_dim_names[OF names] by simp
  have ci: "snd (dims sub ! i) = within lat_min lat_max ?ys" using il jl ij by (simp add: d)
  have cj: "snd (dims sub ! j) = within lon_min lon_max ?xs" using il jl ij by (simp add: d)
  have 1: "sel_slice lat_name lat_min' lat_max' sub = Inr sub"
  proof (rule sel_slice_noop[OF i'])
    show "sorted (snd (dims sub ! i))" using si ci by (simp add: sorted_within)
    fix c assume "c \<in> set (snd (dims sub ! i))"
    then show "lat_min' \<le> c \<and> c \<le> lat_max'" using wider ci by (auto simp: within_def)
  qed
  have 2: "sel_slice lon_name lon_min' lon_max' sub = Inr sub"
  proof (rule sel_slice_noop[OF j'])
    show "sorted (snd (dims sub ! j))" using sj cj by (simp add: sorted_within)
    fix c assume "c \<in> set (snd (dims sub ! j))"
    then show "lon_min' \<le> c \<and> c \<le> lon_max'" using wider cj by (auto simp: within_def)
  qed
  have "subset_domain sub (lat_min', lat_max') (lon_min', lon_max') lat_name lon_name = Inr sub"
    using ne 1 2 by (simp add: subset_domain_def dict_display_two)
  with sub show ?thesis by blast
qed

text \<open>When one name is given for both axes, the dictionary of indexers has one entry and
  the latitude bounds are not used.\<close>

lemma subset_domain_same_name:
  "subset_domain da (lat_min, lat_max) (lon_min, lon_max) key key
     = sel_slice key lon_min lon_max da"
  by (simp add: subset_domain_def dict_display_two split: sum.splits)

text \<open>
  Claim C3. For a field whose latitude and longitude axes (two dimensions with different
  names) are in ascending order, \<open>subset_domain\<close> returns for all bounds, never an error:
  the result keeps the name and the dimensions of the field, the labels of the two axes
  are those within the closed intervals \<open>[lat_min, lat_max]\<close> and \<open>[lon_min, lon_max]\<close>
  (none, when an interval misses the axis), and its samples are exactly the samples of the
  field whose latitude and longitude labels lie in these intervals. The selection goes by
  the labels, not by positions.
\<close>

theorem C3_subset_domain_ascending:
  fixes da :: "('a::linorder, 'v) field"
  assumes "lat_name \<noteq> lon_name"
      and "find_dim lat_name (dims da) = Some i" and "sorted (snd (dims da ! i))"
      and "find_dim lon_name (dims da) = Some j" and "sorted (snd (dims da ! j))"
  shows "\<exists>sub. subset_domain da (lat_min, lat_max) (lon_min, lon_max) lat_name lon_name = Inr sub
           \<and> da_name sub = da_name da
           \<and> dims sub = (dims da)[i := (lat_name, within lat_min lat_max (snd (dims da ! i))),
                                   j := (lon_name, within lon_min lon_max (snd (dims da ! j)))]
           \<and> samples sub = {(l, v) \<in> samples da.
                 lat_min \<le> l ! i \<and> l ! i \<le> lat_max \<and> lon_min \<le> l ! j \<and> l ! j \<le> lon_max}"
  using assms by (rule subset_domain_sorted)

text \<open>C3 on \<open>demo_field\<close>, with a window inside the data and with latitude bounds
  that miss the data.\<close>

theorem C3_subset_domain_ascending_witness:
  "''y'' \<noteq> ''x''
   \<and> find_dim ''y'' (dims demo_field) = Some 0 \<and> sorted (snd (dims demo_field ! 0))
   \<and> find_dim ''x'' (dims demo_field) = Some 1 \<and> sorted (snd (dims demo_field ! 1))
   \<and> (\<exists>sub. subset_domain demo_field (-5, 5) (-85, -75) ''y'' ''x'' = Inr sub
         \<and> dims sub = [(''y'', [-5, 0, 5]), (''x'', [-85, -80, -75])])
   \<and> (\<exists>sub. subset_domain demo_field (20, 30) (-85, -75) ''y'' ''x'' = Inr sub
         \<and> dims sub = [(''y'', []), (''x'', [-85, -80, -75])])"
proof -
  have h: "''y'' \<noteq> ''x''"
     "find_dim ''y'' (dims demo_field) = Some 0" "sorted (snd (dims demo_field ! 0))"
     "find_dim ''x'' (dims demo_field) = Some 1" "sorted (snd (dims demo_field ! 1))"
    by (simp_all add: demo_field_def)
  have d: "dims demo_field = [(''y'', [-10, -5, 0, 5, 10]), (''x'', [-90, -85, -80, -75, -70])]"
    by (simp add: demo_field_def)
  from C3_subset_domain_ascending[OF h, of "-5" 5 "-85" "-75"]
       C3_subset_domain_ascending[OF h, of 20 30 "-85" "-75"] h
  show ?thesis unfolding d by (simp add: within_def) blast
qed

text \<open>
  Claim C8 says that subsetting an already subsetted field to wider bounds returns an
  equivalent field, for every field. On \<open>unsorted_field\<close>, whose latitude axis is in no
  order, the bounds \<open>(1, 2)\<close> are labels of the axis and the subset is the field itself;
  subsetting it again to the wider bounds \<open>(0, 4)\<close>, which are not labels of the axis,
  raises \<^verbatim>\<open>KeyError\<close>.
\<close>

theorem C8_subset_domain_unsorted_counterexample:
  "subset_domain unsorted_field (1, 2) (0, 0) ''y'' ''x'' = Inr unsorted_field
   \<and> subset_domain unsorted_field (0, 4) (0, 0) ''y'' ''x'' = Inl (KeyError ''label not in index'')"
  by (simp add: subset_domain_def dict_display_def sel_slice_def slice_indexer_def
                get_slice_bound_def isel_slice_def unsorted_field_def)

text \<open>
  Claim C8 as amended. For a field whose latitude and longitude axes (two dimensions with
  different names) are in ascending order, \<open>subset_domain\<close> returns a field, and
  subsetting that field again, to the same bounds or to wider ones, returns the very same
  field.
\<close>

theorem C8_subset_domain_idempotent_ascending:
  fixes da :: "('a::linorder, 'v) field"
  assumes "lat_name \<noteq> lon_name"
      and "find_dim lat_name (dims da) = Some i" and "sorted (snd (dims da ! i))"
      and "find_dim lon_name (dims da) = Some j" and "sorted (snd (dims da ! j))"
      and "lat_min' \<le> lat_min" and "lat_max \<le> lat_max'"
      and "lon_min' \<le> lon_min" and "lon_max \<le> lon_max'"
  shows "\<exists>sub. subset_domain da (lat_min, lat_max) (lon_min, lon_max) lat_name lon_name = Inr sub
           \<and> subset_domain sub (lat_min, lat_max) (lon_min, lon_max) lat_name lon_name = Inr sub
           \<and> subset_domain sub (lat_min', lat_max') (lon_min', lon_max') lat_name lon_name = Inr sub"
proof -
  from subset_domain_idempotent_sorted[OF assms(1-5), of lat_min lat_min lat_max lat_max lon_min lon_min lon_max lon_max]
  obtain sub where sub: "subset_domain da (lat_min, lat_max) (lon_min, lon_max) lat_name lon_name = Inr sub"
      "subset_domain sub (lat_min, lat_max) (lon_min, lon_max) lat_name lon_name = Inr sub"
    by auto
  from subset_domain_idempotent_sorted[OF assms] sub(1)
  have "subset_domain sub (lat_min', lat_max') (lon_min', lon_max') lat_name lon_name = Inr sub"
    by auto
  with sub show ?thesis by blast
qed

text \<open>The amended C8 on \<open>demo_field\<close>.\<close>

theorem C8_subset_domain_idempotent_ascending_witness:
  "''y'' \<noteq> ''x''
   \<and> find_dim ''y'' (dims demo_field) = Some 0 \<and> sorted (snd (dims demo_field ! 0))
   \<and> find_dim ''x'' (dims demo_field) = Some 1 \<and> sorted (snd (dims demo_field ! 1))
   \<and> (-7 :: int) \<le> -5 \<and> (5 :: int) \<le> 12 \<and> (-100 :: int) \<le> -85 \<and> (-75 :: int) \<le> -75
   \<and> (\<exists>sub. subset_domain demo_field (-5, 5) (-85, -75) ''y'' ''x'' = Inr sub
         \<and> subset_domain sub (-5, 5) (-85, -75) ''y'' ''x'' = Inr sub
         \<and> subset_domain sub (-7, 12) (-100, -75) ''y'' ''x'' = Inr sub)"
proof -
  have h: "''y'' \<noteq> ''x''"
     "find_dim ''y'' (dims demo_field) = Some 0" "sorted (snd (dims demo_field ! 0))"
     "find_dim ''x'' (dims demo_field) = Some 1" "sorted (snd (dims demo_field ! 1))"
    by (simp_all add: demo_field_def)
  have b: "(-7 :: int) \<le> -5" "(5 :: int) \<le> 12" "(-100 :: int) \<le> -85" "(-75 :: int) \<le> -75"
    by simp_all
  from C8_subset_domain_idempotent_ascending[OF h b] h b show ?thesis by simp
qed

subsection \<open>\<open>select_variable\<close> and \<open>prepare_scene\<close>\<close>

text \<open>
  Claim C5. \<open>select_variable\<close> raises if and only if the name is absent from the
  dataset; the exception is then a \<^verbatim>\<open>KeyError\<close> (a \<^verbatim>\<open>LookupError\<close>) whose message
  contains the name; when the name is present, the field stored under it is returned.
\<close>

theorem C5_select_variable:
  "((\<exists>e. select_variable ds var_name = Inl e) \<longleftrightarrow> ds var_name = None)
   \<and> (ds var_name = None \<longrightarrow>
        (\<exists>pre post. select_variable ds var_name = Inl (KeyError (pre @ var_name @ post))))
   \<and> (\<forall>da. ds var_name = Some da \<longrightarrow> select_variable ds var_name = Inr da)"
proof -
  have "ds var_name = None \<Longrightarrow>
        \<exists>pre post. select_variable ds var_name = Inl (KeyError (pre @ var_name @ post))"
    unfolding select_variable_def
    by (intro exI[of _ "''La variable '' @ [CHR 0x27]"]
              exI[of _ "[CHR 0x27] @ '' no existe en el Dataset.''"]) simp
  then show ?thesis by (auto simp: select_variable_def split: option.splits)
qed

text \<open>C5 on \<open>demo_dataset\<close>, for an absent and for a present name.\<close>

theorem C5_select_variable_witness:
  "demo_dataset ''tbb'' = None
   \<and> select_variable demo_dataset ''tbb''
       = Inl (KeyError (''La variable '' @ [CHR 0x27] @ ''tbb'' @ [CHR 0x27] @ '' no existe en el Dataset.''))
   \<and> demo_dataset ''CMI'' = Some demo_field
   \<and> select_variable demo_dataset ''CMI'' = Inr demo_field"
  using C5_select_variable[of demo_dataset "''tbb''"] C5_select_variable[of demo_dataset "''CMI''"]
  by (simp add: demo_dataset_def select_variable_def)

text \<open>
  Claim C4. \<open>prepare_scene\<close> is the composition of \<open>open_goes_scene\<close>,
  \<open>select_variable\<close> and \<open>subset_domain\<close>, in that order: a failure of the opening or
  of the selection is the result of the whole (no field is produced), and otherwise the
  result is that of \<open>subset_domain\<close> on the selected field.
\<close>

theorem C4_prepare_scene_composition:
  "prepare_scene xr_open_dataset p var_name lat_bounds lon_bounds lat_name lon_name
     = composed_pipeline xr_open_dataset p var_name lat_bounds lon_bounds lat_name lon_name
   \<and> (\<forall>e. open_goes_scene xr_open_dataset p = Inl e \<longrightarrow>
          prepare_scene xr_open_dataset p var_name lat_bounds lon_bounds lat_name lon_name = Inl e)
   \<and> (\<forall>ds e. open_goes_scene xr_open_dataset p = Inr ds \<and> select_variable ds var_name = Inl e \<longrightarrow>
          prepare_scene xr_open_dataset p var_name lat_bounds lon_bounds lat_name lon_name = Inl e)
   \<and> (\<forall>ds da. open_goes_scene xr_open_dataset p = Inr ds \<and> select_variable ds var_name = Inr da \<longrightarrow>
          prepare_scene xr_open_dataset p var_name lat_bounds lon_bounds lat_name lon_name
            = subset_domain da lat_bounds lon_bounds lat_name lon_name)"
  by (auto simp: prepare_scene_def composed_pipeline_def and_then_def split: sum.splits)

text \<open>C4 with \<open>demo_engine\<close>: a missing file, a missing variable, and a complete
  run.\<close>

theorem C4_prepare_scene_composition_witness:
  "open_goes_scene demo_engine [''missing.nc''] = Inl (OpenError ''no such file'')
   \<and> prepare_scene demo_engine [''missing.nc''] ''CMI'' (-5, 5) (-85, -75) ''y'' ''x''
       = Inl (OpenError ''no such file'')
   \<and> open_goes_scene demo_engine [''data'', ''scene.nc''] = Inr demo_dataset
   \<and> (\<exists>msg. select_variable demo_dataset ''tbb'' = Inl (KeyError msg)
         \<and> prepare_scene demo_engine [''data'', ''scene.nc''] ''tbb'' (-5, 5) (-85, -75) ''y'' ''x''
             = Inl (KeyError msg))
   \<and> select_variable demo_dataset ''CMI'' = Inr demo_field
   \<and> prepare_scene demo_engine [''data'', ''scene.nc''] ''CMI'' (-5, 5) (-85, -75) ''y'' ''x''
       = subset_domain demo_field (-5, 5) (-85, -75) ''y'' ''x''"
proof -
  have o1: "open_goes_scene demo_engine [''missing.nc''] = Inl (OpenError ''no such file'')"
    by (simp add: open_goes_scene_def demo_engine_def)
  have o2: "open_goes_scene demo_engine [''data'', ''scene.nc''] = Inr demo_dataset"
    by (simp add: open_goes_scene_def demo_engine_def)
  have s1: "\<exists>msg. select_variable demo_dataset ''tbb'' = Inl (KeyError msg)"
    by (simp add: select_variable_def demo_dataset_def)
  have s2: "select_variable demo_dataset ''CMI'' = Inr demo_field"
    by (simp add: select_variable_def demo_dataset_def)
  from C4_prepare_scene_composition[of demo_engine "[''missing.nc'']" "''CMI''" "(-5, 5)" "(-85, -75)" "''y''" "''x''"]
       C4_prepare_scene_composition[of demo_engine "[''data'', ''scene.nc'']" "''tbb''" "(-5, 5)" "(-85, -75)" "''y''" "''x''"]
       C4_prepare_scene_composition[of demo_engine "[''data'', ''scene.nc'']" "''CMI''" "(-5, 5)" "(-85, -75)" "''y''" "''x''"]
       o1 o2 s1 s2
  show ?thesis by auto
qed

section \<open>Properties of the renderer\<close>

subsection \<open>Prefixes of a path and path resolution\<close>









subsection \<open>The figure registry and the filesystem\<close>











subsection \<open>Making a directory with its ancestors\<close>

lemma creatable_frame: "fs w' = fs w \<Longrightarrow> readonly w' = readonly w \<Longrightarrow> creatable w' p = creatable w p"
  by (simp add: creatable_def)










subsection \<open>\<open>plot_goes_scene\<close> with a save path\<close>



lemma open_wb_ok:
  assumes "open_wb p w = Inr (q, w1)"
  shows "walk (fs w) [] p = Inr q \<and> node_at (fs w) q \<noteq> Some Dir
         \<and> w1 = w\<lparr>fs := (fs w)(q \<mapsto> File [])\<rparr>"
  using assms by (auto simp: open_wb_def split: sum.splits option.splits node.splits if_splits)





text \<open>A drawing call that raises ends \<open>plot_goes_scene\<close> with its exception: nothing is
  saved, and the figure stays in the registry.\<close>

lemma plot_goes_scene_draw_fails:
  assumes "draw_scene b da extent cmap title flight_track = Inl e"
  shows "plot_goes_scene b da extent cmap title flight_track save_path show_it w
           = (Inl e, snd (plt_figure w))
         \<and> figures (snd (plt_figure w)) = figures w @ [fst (plt_figure w)]"
  using assms by (simp add: plot_goes_scene_def plt_figure_def Let_def)



text \<open>The renderer in \<open>demo_world\<close>, where neither \<^verbatim>\<open>out\<close> nor \<^verbatim>\<open>out/figs\<close>
  exists.\<close>

lemma demo_draw:
  "\<exists>arts. draw_scene demo_backend demo_field None ''turbo'' None None = Inr arts"
  by (simp add: draw_scene_def draw_def and_then_def demo_backend_def)






section \<open>Filesystem errors\<close>

text \<open>
  Claim C6 says that \<open>download_many\<close> raises when \<open>out_dir\<close> cannot be created. In
  \<open>locked_world\<close> the directory cannot be created (\<open>ensure_dir\<close> raises
  \<^verbatim>\<open>PermissionError\<close>), and \<open>download_many\<close> returns the empty list, with the failure
  in the log: \<open>ensure_dir\<close> is called by \<open>download_file\<close>, inside the handler of the loop.
\<close>

theorem C6_directory_failure_counterexample:
  "ensure_dir [''data''] locked_world = (Inl PermissionError, locked_world)
   \<and> download_many [''http://h/a.nc''] [''data''] locked_world =
       (Inr [], locked_world\<lparr>log := [Error_downloading ''http://h/a.nc'' PermissionError]\<rparr>)"
proof -
  have e: "ensure_dir [''data''] locked_world = (Inl PermissionError, locked_world)"
    by (subst ensure_dir_def, subst mkdir_parents.simps)
       (simp add: os_mkdir_def node_at_def locked_world_def is_dir_def stat_def)
  then show ?thesis
    by (simp add: download_many_def download_file_def logger_def locked_world_def)
qed

lemma open_wb_error_frame:
  "fs w' = fs w \<Longrightarrow> readonly w' = readonly w \<Longrightarrow> open_wb p w = Inl e \<Longrightarrow> open_wb p w' = Inl e"
  by (auto simp: open_wb_def split: sum.splits option.splits node.splits if_splits)

lemma download_file_open_fails:
  assumes "ensure_dir out_dir w = (Inr d, w1)"
      and "\<not> path_exists (fs w1) (target_path out_dir url)"
      and "server w1 (requests w1) url = Reply status chunks broken"
      and "\<not> (400 \<le> status \<and> status < 600)"
      and "open_wb (target_path out_dir url) w1 = Inl e"
  shows "download_file url out_dir w
           = (Inl e, (logger (Info_downloading url (target_path out_dir url)) w1)
                       \<lparr>requests := requests w1 @ [url]\<rparr>)"
proof -
  let ?t = "target_path out_dir url"
  let ?w3 = "(logger (Info_downloading url ?t) w1)\<lparr>requests := requests w1 @ [url]\<rparr>"
  have d: "d = out_dir" using ensure_dir_ok[OF assms(1)] by simp
  have o: "open_wb ?t ?w3 = Inl e"
    using assms(5) by (rule open_wb_error_frame[rotated 2]) (simp_all add: logger_def)
  have g: "requests_get url (logger (Info_downloading url ?t) w1)
           = (Reply status chunks broken, ?w3)"
    using assms(3) by (simp add: requests_get_def logger_def)
  show ?thesis
    using assms(1,2,4) d o g
    by (auto simp: download_file_def Let_def target_path_def[symmetric])
qed

lemma savefig_open_fails:
  assumes "savefig_target b p = (fmt, t)" and "rasterize b arts dpi fmt = Inr img"
      and "open_wb t w = Inl e"
  shows "savefig b arts p dpi w = (Inl e, w)"
  using assms by (simp add: savefig_def)

text \<open>
  Claim C6 as amended. Filesystem errors propagate uncaught everywhere but in
  \<open>download_many\<close>: an error of the directory creation leaves \<open>ensure_dir\<close> and, through
  it, \<open>download_file\<close>; an error of opening the target file leaves \<open>download_file\<close>;
  an error of creating the parent directory of the save path, or of opening the image
  file, leaves \<open>plot_goes_scene\<close>. In \<open>download_many\<close> every exception of
  \<open>download_file\<close>, also the failure to create \<open>out_dir\<close>, which happens inside
  \<open>download_file\<close>, is caught for the URL at hand, logged, and the URL is skipped;
  \<open>download_many\<close> never raises.
\<close>

theorem C6_filesystem_errors_caught_only_in_batch:
  fixes b :: "('a, 'v) backend"
  shows
  "(\<forall>e w1. mkdir_parents out_dir w = (Inl e, w1) \<longrightarrow> ensure_dir out_dir w = (Inl e, w1))
   \<and> (\<forall>e w1. ensure_dir out_dir w = (Inl e, w1) \<longrightarrow> download_file url out_dir w = (Inl e, w1))
   \<and> (\<forall>d w1 status chunks broken e.
         ensure_dir out_dir w = (Inr d, w1)
         \<and> \<not> path_exists (fs w1) (target_path out_dir url)
         \<and> server w1 (requests w1) url = Reply status chunks broken
         \<and> \<not> (400 \<le> status \<and> status < 600)
         \<and> open_wb (target_path out_dir url) w1 = Inl e
         \<longrightarrow> download_file url out_dir w
               = (Inl e, (logger (Info_downloading url (target_path out_dir url)) w1)
                           \<lparr>requests := requests w1 @ [url]\<rparr>))
   \<and> (\<forall>e w1. download_file url out_dir w = (Inl e, w1) \<longrightarrow>
         download_many [url] out_dir w = (Inr [], logger (Error_downloading url e) w1))
   \<and> (\<forall>urls. \<exists>paths w'. download_many urls out_dir w = (Inr paths, w'))
   \<and> (\<forall>arts e w1.
         draw_scene b da extent cmap title flight_track = Inr arts
         \<and> mkdir_parents (butlast save_path) (snd (plt_figure w)) = (Inl e, w1)
         \<longrightarrow> plot_goes_scene b da extent cmap title flight_track (Some save_path) show_it w
               = (Inl e, w1))
   \<and> (\<forall>arts u w1 fmt filename img e.
         draw_scene b da extent cmap title flight_track = Inr arts
         \<and> mkdir_parents (butlast save_path) (snd (plt_figure w)) = (Inr u, w1)
         \<and> savefig_target b save_path = (fmt, filename)
         \<and> rasterize b arts 150 fmt = Inr img
         \<and> open_wb filename w1 = Inl e
         \<longrightarrow> plot_goes_scene b da extent cmap title flight_track (Some save_path) show_it w
               = (Inl e, w1))"
proof (intro conjI allI impI)
  fix e w1 assume "mkdir_parents out_dir w = (Inl e, w1)"
  then show "ensure_dir out_dir w = (Inl e, w1)" by (simp add: ensure_dir_def)
next
  fix e w1 assume "ensure_dir out_dir w = (Inl e, w1)"
  then show "download_file url out_dir w = (Inl e, w1)" by (simp add: download_file_def)
next
  fix d w1 status chunks broken e
  assume "ensure_dir out_dir w = (Inr d, w1)
         \<and> \<not> path_exists (fs w1) (target_path out_dir url)
         \<and> server w1 (requests w1) url = Reply status chunks broken
         \<and> \<not> (400 \<le> status \<and> status < 600)
         \<and> open_wb (target_path out_dir url) w1 = Inl e"
  then show "download_file url out_dir w
               = (Inl e, (logger (Info_downloading url (target_path out_dir url)) w1)
                           \<lparr>requests := requests w1 @ [url]\<rparr>)"
    using download_file_open_fails by blast
next
  fix e w1 assume "download_file url out_dir w = (Inl e, w1)"
  then show "download_many [url] out_dir w = (Inr [], logger (Error_downloading url e) w1)"
    by (simp add: download_many_def)
next
  fix urls
  show "\<exists>paths w'. download_many urls out_dir w = (Inr paths, w')"
    by (simp add: download_many_def split: prod.splits)
next
  fix arts e w1
  assume "draw_scene b da extent cmap title flight_track = Inr arts
         \<and> mkdir_parents (butlast save_path) (snd (plt_figure w)) = (Inl e, w1)"
  then have d: "draw_scene b da extent cmap title flight_track = Inr arts"
    and m: "mkdir_parents (butlast save_path) (snd (plt_figure w)) = (Inl e, w1)" by simp_all
  obtain fig w0 where pf: "plt_figure w = (fig, w0)" by force
  from m pf show "plot_goes_scene b da extent cmap title flight_track (Some save_path) show_it w
               = (Inl e, w1)"
    by (simp add: plot_goes_scene_def save_scene_def d)
next
  fix arts u w1 fmt filename img e
  assume a: "draw_scene b da extent cmap title flight_track = Inr arts
         \<and> mkdir_parents (butlast save_path) (snd (plt_figure w)) = (Inr u, w1)
         \<and> savefig_target b save_path = (fmt, filename)
         \<and> rasterize b arts 150 fmt = Inr img
         \<and> open_wb filename w1 = Inl e"
  then have "savefig b arts save_path 150 w1 = (Inl e, w1)"
    using savefig_open_fails by blast
  moreover from a have d: "draw_scene b da extent cmap title flight_track = Inr arts"
    and m: "mkdir_parents (butlast save_path) (snd (plt_figure w)) = (Inr u, w1)" by simp_all
  moreover obtain fig w0 where pf: "plt_figure w = (fig, w0)" by force
  ultimately show "plot_goes_scene b da extent cmap title flight_track (Some save_path) show_it w
               = (Inl e, w1)"
    by (simp add: plot_goes_scene_def save_scene_def)
qed

text \<open>The amended C6 in \<open>locked_world\<close>, where no directory can be made, and in
  \<open>sealed_world\<close>, where \<^verbatim>\<open>data\<close> exists and takes no new file.\<close>

theorem C6_filesystem_errors_caught_only_in_batch_witness:
  "ensure_dir [''data''] locked_world = (Inl PermissionError, locked_world)
   \<and> download_file ''http://h/c.nc'' [''data''] locked_world = (Inl PermissionError, locked_world)
   \<and> fst (download_many [''http://h/c.nc''] [''data''] locked_world) = Inr []
   \<and> open_wb [''data'', ''a.nc''] sealed_world = Inl PermissionError
   \<and> fst (download_file ''http://h/a.nc'' [''data''] sealed_world) = Inl PermissionError
   \<and> fst (plot_goes_scene demo_backend demo_field None ''turbo'' None None
             (Some [''figs'', ''scene.png'']) False locked_world) = Inl PermissionError
   \<and> open_wb [''data'', ''scene.png''] sealed_world = Inl PermissionError
   \<and> fst (plot_goes_scene demo_backend demo_field None ''turbo'' None None
             (Some [''data'', ''scene.png'']) False sealed_world) = Inl PermissionError"
proof -
  note A = C6_filesystem_errors_caught_only_in_batch
             [where out_dir = "[''data'']" and w = locked_world and url = "''http://h/c.nc''"
                and b = demo_backend and da = demo_field and extent = None and cmap = "''turbo''"
                and title = None and flight_track = None
                and save_path = "[''figs'', ''scene.png'']" and show_it = False]
  note B = C6_filesystem_errors_caught_only_in_batch
             [where out_dir = "[''data'']" and w = sealed_world and url = "''http://h/a.nc''"
                and b = demo_backend and da = demo_field and extent = None and cmap = "''turbo''"
                and title = None and flight_track = None
                and save_path = "[''data'', ''scene.png'']" and show_it = False]
  from demo_draw obtain arts where
    a: "draw_scene demo_backend demo_field None ''turbo'' None None = Inr arts" by blast
  have lk: "fs locked_world = Map.empty" "readonly locked_world [] "
    by (simp_all add: locked_world_def)
  have sl: "fs sealed_world [''data''] = Some Dir" "readonly sealed_world [''data'']"
      "fs sealed_world [''data'', ''a.nc''] = None" "fs sealed_world [''data'', ''scene.png''] = None"
      "server sealed_world (requests sealed_world) ''http://h/a.nc'' = Reply 200 [''ab'', '''', ''c''] False"
    by (simp_all add: sealed_world_def demo_world_def demo_server_def)
  have m1: "mkdir_parents [''data''] w = (Inl PermissionError, w)"
    if "fs w = Map.empty" "readonly w []" for w
    using that by (subst mkdir_parents.simps) (simp add: os_mkdir_def node_at_def is_dir_def stat_def)
  have e1: "ensure_dir [''data''] locked_world = (Inl PermissionError, locked_world)"
    by (simp add: ensure_dir_def m1[OF lk])
  have d1: "download_file ''http://h/c.nc'' [''data''] locked_world = (Inl PermissionError, locked_world)"
    using A[THEN conjunct2, THEN conjunct1] e1 by blast
  have b1: "fst (download_many [''http://h/c.nc''] [''data''] locked_world) = Inr []"
    using A[THEN conjunct2, THEN conjunct2, THEN conjunct2, THEN conjunct1] d1 by simp
  have o: "open_wb [''data'', x] w = Inl PermissionError"
    if "fs w [''data''] = Some Dir" "readonly w [''data'']" "fs w [''data'', x] = None" "x \<noteq> ''..''"
    for w x
    using that by (simp add: open_wb_def node_at_def)
  have o1: "open_wb [''data'', ''a.nc''] sealed_world = Inl PermissionError"
    by (rule o[OF sl(1,2,3)]) simp
  have o2: "open_wb [''data'', ''scene.png''] sealed_world = Inl PermissionError"
    by (rule o[OF sl(1,2,4)]) simp
  have e2: "ensure_dir [''data''] sealed_world = (Inr [''data''], sealed_world)"
    using sl(1) by (intro ensure_dir_is_dir) (simp add: is_dir_def stat_def node_at_def)
  have t: "target_path [''data''] ''http://h/a.nc'' = [''data'', ''a.nc'']"
    by (simp add: target_path_def path_join_def)
  have ne: "\<not> path_exists (fs sealed_world) [''data'', ''a.nc'']"
    using sl by (simp add: path_exists_def stat_def node_at_def)
  have d2: "fst (download_file ''http://h/a.nc'' [''data''] sealed_world) = Inl PermissionError"
    using B[THEN conjunct2, THEN conjunct2, THEN conjunct1, rule_format,
            of "[''data'']" sealed_world 200 "[''ab'', [], ''c'']" False PermissionError]
          e2 ne sl(5) o1
    by (simp add: t)
  define u where "u = snd (plt_figure locked_world)"
  have uf: "fs u = Map.empty" "readonly u []"
    by (simp_all add: u_def plt_figure_def Let_def lk)
  have mf: "mkdir_parents [''figs''] u = (Inl PermissionError, u)"
    using uf by (subst mkdir_parents.simps) (simp add: os_mkdir_def node_at_def is_dir_def stat_def)
  have p1: "fst (plot_goes_scene demo_backend demo_field None ''turbo'' None None
             (Some [''figs'', ''scene.png'']) False locked_world) = Inl PermissionError"
    using A[THEN conjunct2, THEN conjunct2, THEN conjunct2, THEN conjunct2, THEN conjunct2,
            THEN conjunct1, rule_format, of arts PermissionError u] a mf
    by (simp add: u_def)
  define v where "v = snd (plt_figure sealed_world)"
  have vf: "fs v [''data''] = Some Dir" "readonly v [''data'']" "fs v [''data'', ''scene.png''] = None"
    by (simp_all add: v_def plt_figure_def Let_def sl)
  have md: "mkdir_parents [''data''] v = (Inr (), v)"
    using vf(1) by (intro mkdir_parents_is_dir) (simp add: is_dir_def stat_def node_at_def)
  have ov: "open_wb [''data'', ''scene.png''] v = Inl PermissionError"
    by (rule o[OF vf]) simp
  have tg: "savefig_target demo_backend [''data'', ''scene.png''] = (''png'', [''data'', ''scene.png''])"
    by (simp add: savefig_target_def file_extension_def demo_backend_def)
  have r: "rasterize demo_backend arts 150 ''png'' = Inr ''PNG''" by (simp add: demo_backend_def)
  have p2: "fst (plot_goes_scene demo_backend demo_field None ''turbo'' None None
             (Some [''data'', ''scene.png'']) False sealed_world) = Inl PermissionError"
    using B[THEN conjunct2, THEN conjunct2, THEN conjunct2, THEN conjunct2, THEN conjunct2, THEN conjunct2,
            rule_format, of arts "()" v "''png''" "[''data'', ''scene.png'']" "''PNG''" PermissionError]
          a md tg r ov
    by (simp add: v_def)
  from e1 d1 b1 o1 d2 p1 o2 p2 show ?thesis by (intro conjI)
qed

end
